theory Spec2Isabelle
  imports Main
begin

section \<open>Python strings\<close>

text \<open>
  A Python \<open>str\<close> is a sequence of code points. The model is \<^typ>\<open>string\<close>, one
  \<^typ>\<open>char\<close> per code point, which covers the code points U+0000 to U+00FF; the
  character classes below are those of CPython on that range. Text with code points
  above U+00FF is outside the model.
\<close>

definition isspace :: "char \<Rightarrow> bool" where
  \<comment> \<open>\<open>str.isspace\<close> on one character; also the class \<open>\s\<close> of \<open>re\<close>.\<close>
  "isspace c =
     (let n = (of_char c :: nat)
      in (9 \<le> n \<and> n \<le> 13) \<or> (28 \<le> n \<and> n \<le> 32) \<or> n = 133 \<or> n = 160)"

definition isdecimal :: "char \<Rightarrow> bool" where
  \<comment> \<open>the class \<open>\d\<close> of \<open>re\<close>.\<close>
  "isdecimal c = (let n = (of_char c :: nat) in 48 \<le> n \<and> n \<le> 57)"

definition isword :: "char \<Rightarrow> bool" where
  \<comment> \<open>the class \<open>\w\<close> of \<open>re\<close>: \<open>str.isalnum\<close> or an underscore.\<close>
  "isword c =
     (let n = (of_char c :: nat)
      in (48 \<le> n \<and> n \<le> 57) \<or> (65 \<le> n \<and> n \<le> 90) \<or> n = 95 \<or> (97 \<le> n \<and> n \<le> 122)
         \<or> n = 170 \<or> n = 178 \<or> n = 179 \<or> n = 181 \<or> n = 185 \<or> n = 186
         \<or> (188 \<le> n \<and> n \<le> 190) \<or> (192 \<le> n \<and> n \<le> 214) \<or> (216 \<le> n \<and> n \<le> 246)
         \<or> 248 \<le> n)"

definition lower_char :: "char \<Rightarrow> char" where
  "lower_char c =
     (let n = (of_char c :: nat)
      in if (65 \<le> n \<and> n \<le> 90) \<or> (192 \<le> n \<and> n \<le> 214) \<or> (216 \<le> n \<and> n \<le> 222)
         then (case c of Char b0 b1 b2 b3 b4 b5 b6 b7 \<Rightarrow> Char b0 b1 b2 b3 b4 True b6 b7)
         else c)"

definition lower :: "string \<Rightarrow> string" where
  "lower s = map lower_char s"

definition strip :: "string \<Rightarrow> string" where
  "strip s = rev (dropWhile isspace (rev (dropWhile isspace s)))"

definition lstrip_chars :: "string \<Rightarrow> string \<Rightarrow> string" where
  \<comment> \<open>\<open>s.lstrip(chars)\<close>\<close>
  "lstrip_chars chars s = dropWhile (\<lambda>c. c \<in> set chars) s"

definition startswith :: "string \<Rightarrow> string \<Rightarrow> bool" where
  "startswith s p = (take (length p) s = p)"

fun contains :: "string \<Rightarrow> string \<Rightarrow> bool" where
  \<comment> \<open>\<open>needle in s\<close>\<close>
  "contains needle [] = (needle = [])"
| "contains needle (c # cs) = (startswith (c # cs) needle \<or> contains needle cs)"

fun split_on :: "char \<Rightarrow> string \<Rightarrow> string list" where
  \<comment> \<open>\<open>s.split(sep)\<close> for a one-character separator.\<close>
  "split_on sep [] = [[]]"
| "split_on sep (c # cs) =
     (if c = sep then [] # split_on sep cs
      else (case split_on sep cs of [] \<Rightarrow> [[c]] | x # xs \<Rightarrow> (c # x) # xs))"

fun split_once :: "char \<Rightarrow> string \<Rightarrow> string \<times> string" where
  \<comment> \<open>\<open>s.split(sep, 1)\<close> on a string that contains the separator.\<close>
  "split_once sep [] = ([], [])"
| "split_once sep (c # cs) =
     (if c = sep then ([], cs) else (case split_once sep cs of (a, b) \<Rightarrow> (c # a, b)))"

definition replace_char :: "char \<Rightarrow> char \<Rightarrow> string \<Rightarrow> string" where
  \<comment> \<open>\<open>s.replace(a, b)\<close> for one-character strings.\<close>
  "replace_char a b s = map (\<lambda>c. if c = a then b else c) s"

definition slice :: "string \<Rightarrow> nat \<Rightarrow> nat \<Rightarrow> string" where
  \<comment> \<open>\<open>s[i:j]\<close> for non-negative indices.\<close>
  "slice s i j = take (j - i) (drop i s)"

definition digit_char :: "nat \<Rightarrow> char" where
  "digit_char n = ''0123456789'' ! (n mod 10)"

function str_nat :: "nat \<Rightarrow> string" where
  \<comment> \<open>\<open>str(n)\<close> for a non-negative integer.\<close>
  "str_nat n = (if n < 10 then [digit_char n] else str_nat (n div 10) @ [digit_char n])"
  by pat_completeness auto
termination
  by (relation "measure (\<lambda>n. n)") auto

definition str_int :: "int \<Rightarrow> string" where
  "str_int i = (if i < 0 then CHR ''-'' # str_nat (nat (- i)) else str_nat (nat i))"

definition int_of_digits :: "string \<Rightarrow> nat" where
  \<comment> \<open>the number a string of the digits 0 to 9 writes\<close>
  "int_of_digits s = foldl (\<lambda>a c. 10 * a + ((of_char c :: nat) - 48)) 0 s"

definition join :: "string \<Rightarrow> string list \<Rightarrow> string" where
  \<comment> \<open>\<open>sep.join(xs)\<close>\<close>
  "join sep xs = (case xs of [] \<Rightarrow> [] | y # ys \<Rightarrow> y @ concat (map (\<lambda>z. sep @ z) ys))"

section \<open>The regular expressions of \<open>re\<close>\<close>

text \<open>
  The parser is written with Python's backtracking regular expressions. A pattern is a
  value of \<open>rx\<close>; \<open>ms r st\<close> lists the states in which a match of \<open>r\<close> begun in \<open>st\<close> can
  end, in the order in which the backtracking matcher tries them, so that the match
  \<open>re\<close> reports is the head of the list. Flags are written into the pattern: under
  \<open>DOTALL\<close> a dot is \<open>any\<close>, otherwise \<open>dot\<close>; under \<open>MULTILINE\<close> a caret is \<open>Bol\<close>,
  otherwise \<open>Bos\<close>; under \<open>IGNORECASE\<close> a letter is \<open>ci\<close>.
\<close>

datatype mstate =
  MState (st_pos: nat) (st_rest: string) (st_prev: "char option")
         (st_groups: "(nat \<times> nat \<times> nat) list")

datatype rx =
    Chr "char \<Rightarrow> bool"   \<comment> \<open>one character of a class\<close>
  | Eps
  | Seq rx rx
  | Alt rx rx
  | Star rx               \<comment> \<open>\<open>r*\<close>, greedy\<close>
  | LStar rx              \<comment> \<open>\<open>r*?\<close>, lazy\<close>
  | Group nat rx          \<comment> \<open>capturing group number n\<close>
  | Look rx               \<comment> \<open>\<open>(?=r)\<close>\<close>
  | NLook rx              \<comment> \<open>\<open>(?!r)\<close>\<close>
  | Bos                   \<comment> \<open>\<open>^\<close>\<close>
  | Bol                   \<comment> \<open>\<open>^\<close> under MULTILINE\<close>
  | Eos                   \<comment> \<open>\<open>\Z\<close>\<close>
  | EosNl                 \<comment> \<open>\<open>$\<close>\<close>

function ms :: "rx \<Rightarrow> mstate \<Rightarrow> mstate list" where
  "ms (Chr p) st =
     (case st_rest st of
        [] \<Rightarrow> []
      | c # cs \<Rightarrow> if p c then [MState (st_pos st + 1) cs (Some c) (st_groups st)] else [])"
| "ms Eps st = [st]"
| "ms (Seq a b) st = concat (map (ms b) (ms a st))"
| "ms (Alt a b) st = ms a st @ ms b st"
| "ms (Star a) st =
     concat (map (\<lambda>st'. if length (st_rest st') < length (st_rest st)
                         then ms (Star a) st' else [])
                 (ms a st)) @ [st]"
| "ms (LStar a) st =
     st # concat (map (\<lambda>st'. if length (st_rest st') < length (st_rest st)
                              then ms (LStar a) st' else [])
                      (ms a st))"
| "ms (Group n a) st =
     map (\<lambda>st'. MState (st_pos st') (st_rest st') (st_prev st')
                        ((n, st_pos st, st_pos st') # st_groups st'))
         (ms a st)"
| "ms (Look a) st = (if ms a st = [] then [] else [st])"
| "ms (NLook a) st = (if ms a st = [] then [st] else [])"
| "ms Bos st = (if st_prev st = None then [st] else [])"
| "ms Bol st = (if st_prev st = None \<or> st_prev st = Some CHR 0x0A then [st] else [])"
| "ms Eos st = (if st_rest st = [] then [st] else [])"
| "ms EosNl st = (if st_rest st = [] \<or> st_rest st = [CHR 0x0A] then [st] else [])"
  by pat_completeness auto
termination
  by (relation "measures [\<lambda>(r, st). size r, \<lambda>(r, st). length (st_rest st)]") auto

text \<open>
  The repetitions of the parser's patterns are all over expressions that consume at least
  one character, so the guard of \<open>Star\<close> and \<open>LStar\<close> (an iteration must consume
  something) never cuts a match that \<open>re\<close> would find.
\<close>

definition Lit :: "char \<Rightarrow> rx" where
  "Lit c = Chr (\<lambda>x. x = c)"

definition ci :: "char \<Rightarrow> rx" where
  \<comment> \<open>a lower-case letter of a pattern under IGNORECASE\<close>
  "ci c = Chr (\<lambda>x. lower_char x = c)"

fun seqs :: "rx list \<Rightarrow> rx" where
  "seqs [] = Eps"
| "seqs [r] = r"
| "seqs (r # rs) = Seq r (seqs rs)"

definition lits :: "string \<Rightarrow> rx" where
  "lits s = seqs (map Lit s)"

definition cis :: "string \<Rightarrow> rx" where
  "cis s = seqs (map ci s)"

definition Plus :: "rx \<Rightarrow> rx" where
  "Plus r = Seq r (Star r)"

definition LPlus :: "rx \<Rightarrow> rx" where
  "LPlus r = Seq r (LStar r)"

definition Opt :: "rx \<Rightarrow> rx" where
  "Opt r = Alt r Eps"

definition nl :: rx where "nl = Lit CHR 0x0A"
definition any :: rx where "any = Chr (\<lambda>c. True)"
definition dot :: rx where "dot = Chr (\<lambda>c. c \<noteq> CHR 0x0A)"
definition ws :: rx where "ws = Chr isspace"
definition dig :: rx where "dig = Chr isdecimal"
definition wordc :: rx where "wordc = Chr isword"

text \<open>A match: where it starts and the state in which it ends.\<close>

datatype rmatch = RMatch (m_start: nat) (m_state: mstate)

definition m_end :: "rmatch \<Rightarrow> nat" where
  "m_end m = st_pos (m_state m)"

definition group :: "string \<Rightarrow> rmatch \<Rightarrow> nat \<Rightarrow> string option" where
  \<comment> \<open>\<open>m.group(k)\<close> of a match in \<open>s\<close>: None when the group took no part.\<close>
  "group s m k =
     (case map_of (st_groups (m_state m)) k of
        None \<Rightarrow> None
      | Some (a, b) \<Rightarrow> Some (slice s a b))"

definition group_str :: "string \<Rightarrow> rmatch \<Rightarrow> nat \<Rightarrow> string" where
  \<comment> \<open>a group that every match of the pattern sets\<close>
  "group_str s m k = (case group s m k of None \<Rightarrow> [] | Some g \<Rightarrow> g)"

definition re_match :: "rx \<Rightarrow> string \<Rightarrow> rmatch option" where
  "re_match r s =
     (case ms r (MState 0 s None []) of [] \<Rightarrow> None | st # _ \<Rightarrow> Some (RMatch 0 st))"

fun search_from :: "rx \<Rightarrow> nat \<Rightarrow> char option \<Rightarrow> string \<Rightarrow> rmatch option" where
  "search_from r i p [] =
     (case ms r (MState i [] p []) of [] \<Rightarrow> None | st # _ \<Rightarrow> Some (RMatch i st))"
| "search_from r i p (c # cs) =
     (case ms r (MState i (c # cs) p []) of
        [] \<Rightarrow> search_from r (i + 1) (Some c) cs
      | st # _ \<Rightarrow> Some (RMatch i st))"

definition re_search :: "rx \<Rightarrow> string \<Rightarrow> rmatch option" where
  "re_search r s = search_from r 0 None s"

function finditer_from :: "rx \<Rightarrow> nat \<Rightarrow> char option \<Rightarrow> string \<Rightarrow> rmatch list" where
  "finditer_from r i p s =
     (case search_from r i p s of
        None \<Rightarrow> []
      | Some m \<Rightarrow>
          if i < m_end m \<and> length (st_rest (m_state m)) < length s
          then m # finditer_from r (m_end m) (st_prev (m_state m)) (st_rest (m_state m))
          else [m])"
  by pat_completeness auto
termination
  by (relation "measure (\<lambda>(r, i, p, s). length s)") auto

definition re_finditer :: "rx \<Rightarrow> string \<Rightarrow> rmatch list" where
  \<comment> \<open>the non-overlapping matches from left to right; every pattern it is used with
      matches at least one character, so the scan goes on at the end of each match.\<close>
  "re_finditer r s = finditer_from r 0 None s"

definition re_findall1 :: "rx \<Rightarrow> string \<Rightarrow> string list" where
  \<comment> \<open>\<open>re.findall\<close> for a pattern with one group, which every match sets.\<close>
  "re_findall1 r s = map (\<lambda>m. group_str s m 1) (re_finditer r s)"

definition re_sub_first :: "rx \<Rightarrow> string \<Rightarrow> string" where
  \<comment> \<open>\<open>re.sub(r, "", s, count=1)\<close>\<close>
  "re_sub_first r s =
     (case re_search r s of
        None \<Rightarrow> s
      | Some m \<Rightarrow> take (m_start m) s @ drop (m_end m) s)"

section \<open>Values of the YAML loader, exceptions, the libraries\<close>

datatype yaml =
    YNull
  | YBool bool
  | YInt int
  | YStr string
  | YList "yaml list"
  | YDict "(yaml \<times> yaml) list"

text \<open>
  What \<open>yaml.safe_load\<close> returns: None, booleans, integers, strings, lists and
  dictionaries (as association lists; a key is looked up by its first entry). Floats,
  timestamps and binary scalars are outside the model.
\<close>

definition truthy :: "yaml \<Rightarrow> bool" where
  \<comment> \<open>Python's truth value, as in \<open>if not x\<close>\<close>
  "truthy y =
     (case y of
        YNull \<Rightarrow> False
      | YBool b \<Rightarrow> b
      | YInt i \<Rightarrow> i \<noteq> 0
      | YStr s \<Rightarrow> s \<noteq> []
      | YList xs \<Rightarrow> xs \<noteq> []
      | YDict d \<Rightarrow> d \<noteq> [])"

definition dict_get :: "(yaml \<times> yaml) list \<Rightarrow> string \<Rightarrow> yaml option" where
  \<comment> \<open>\<open>d.get(k)\<close> for a string key: None of the option type when the key is absent.\<close>
  "dict_get d k = map_of d (YStr k)"

definition py_get :: "(yaml \<times> yaml) list \<Rightarrow> string \<Rightarrow> yaml" where
  \<comment> \<open>\<open>d.get(k)\<close>: Python's None when the key is absent\<close>
  "py_get d k = (case dict_get d k of None \<Rightarrow> YNull | Some v \<Rightarrow> v)"

definition type_repr :: "yaml \<Rightarrow> string" where
  \<comment> \<open>\<open>str(type(x))\<close>\<close>
  "type_repr y =
     (case y of
        YNull \<Rightarrow> ''<class 'NoneType'>''
      | YBool b \<Rightarrow> ''<class 'bool'>''
      | YInt i \<Rightarrow> ''<class 'int'>''
      | YStr s \<Rightarrow> ''<class 'str'>''
      | YList xs \<Rightarrow> ''<class 'list'>''
      | YDict d \<Rightarrow> ''<class 'dict'>'')"

definition hex2 :: "nat \<Rightarrow> string" where
  "hex2 n = [''0123456789abcdef'' ! ((n div 16) mod 16), ''0123456789abcdef'' ! (n mod 16)]"

definition repr_char :: "char \<Rightarrow> char \<Rightarrow> string" where
  \<comment> \<open>one character inside \<open>repr(s)\<close>, the string being quoted with \<open>q\<close>\<close>
  "repr_char q c =
     (let n = (of_char c :: nat)
      in if c = q \<or> c = CHR 0x5C then [CHR 0x5C, c]
         else if n = 9 then [CHR 0x5C, CHR ''t'']
         else if n = 10 then [CHR 0x5C, CHR ''n'']
         else if n = 13 then [CHR 0x5C, CHR ''r'']
         else if n < 32 \<or> (127 \<le> n \<and> n \<le> 160) \<or> n = 173 then [CHR 0x5C, CHR ''x''] @ hex2 n
         else [c])"

definition repr_str :: "string \<Rightarrow> string" where
  \<comment> \<open>\<open>repr(s)\<close> of a string: double quotes only when it has a single quote and no
      double quote.\<close>
  "repr_str s =
     (let q = (if CHR 0x27 \<in> set s \<and> CHR 0x22 \<notin> set s then CHR 0x22 else CHR 0x27)
      in [q] @ concat (map (repr_char q) s) @ [q])"

fun py_repr :: "yaml \<Rightarrow> string" where
  "py_repr YNull = ''None''"
| "py_repr (YBool b) = (if b then ''True'' else ''False'')"
| "py_repr (YInt i) = str_int i"
| "py_repr (YStr s) = repr_str s"
| "py_repr (YList xs) = ''['' @ join '', '' (map py_repr xs) @ '']''"
| "py_repr (YDict d) =
     ''{'' @ join '', '' (map (\<lambda>(k, v). py_repr k @ '': '' @ py_repr v) d) @ ''}''"

definition py_str :: "yaml \<Rightarrow> string" where
  \<comment> \<open>\<open>str(x)\<close>, what an f-string writes for \<open>{x}\<close>\<close>
  "py_str y = (case y of YStr s \<Rightarrow> s | _ \<Rightarrow> py_repr y)"

datatype exn =
    BusyValidationError string
  | BusyImportError string
  | BusyParseError string
  | ValueError string
  | ValidationError string   \<comment> \<open>pydantic's, not a subclass of BusyError\<close>
  | YAMLError string         \<comment> \<open>\<open>yaml.YAMLError\<close> and its subclasses\<close>
  | OSError string

fun exn_str :: "exn \<Rightarrow> string" where
  \<comment> \<open>\<open>str(e)\<close>\<close>
  "exn_str (BusyValidationError m) = m"
| "exn_str (BusyImportError m) = m"
| "exn_str (BusyParseError m) = m"
| "exn_str (ValueError m) = m"
| "exn_str (ValidationError m) = m"
| "exn_str (YAMLError m) = m"
| "exn_str (OSError m) = m"

text \<open>
  The libraries the parser calls and whose code is not the repository's, and the
  interpreter's setting the parser depends on: the YAML loader, which returns a value or
  raises (a \<open>yaml.YAMLError\<close> on text that is not YAML, or whatever else building the
  value raises, such as the \<open>ValueError\<close> of the date \<open>2001-13-45\<close>); the text of a
  pydantic validation error (from the model's name and the rejected fields with their
  values); pydantic's reading of a value as a \<open>bool\<close> field; and
  \<open>sys.get_int_max_str_digits()\<close>, the longest digit string \<open>int\<close> converts (4300 unless
  it has been set, 0 for no limit).
\<close>

record ext =
  safe_load :: "string \<Rightarrow> exn + yaml"
  pydantic_text :: "string \<Rightarrow> (string \<times> yaml) list \<Rightarrow> string"
  coerce_bool :: "yaml \<Rightarrow> bool option"
  max_str_digits :: nat

definition py_int :: "ext \<Rightarrow> string \<Rightarrow> exn + nat" where
  \<comment> \<open>\<open>int(s)\<close> on a non-empty string of the digits 0 to 9: CPython checks the length of a
      string of more than 640 digits against the limit and raises \<open>ValueError\<close> beyond it\<close>
  "py_int x s =
     (if 640 < length s \<and> 0 < max_str_digits x \<and> max_str_digits x < length s
      then Inl (ValueError
                 (''Exceeds the limit ('' @ str_nat (max_str_digits x)
                    @ '' digits) for integer string conversion: value has ''
                    @ str_nat (length s)
                    @ '' digits; use sys.set_int_max_str_digits() to increase the limit''))
      else Inr (int_of_digits s))"

section \<open>The models\<close>

text \<open>
  The pydantic models of \<open>models.py\<close>, a record each, the fields prefixed with the model's
  name. A constructor checks the constraints the model declares (\<open>min_length=1\<close>,
  \<open>ge=1\<close>) and raises pydantic's \<open>ValidationError\<close> naming the rejected fields.
\<close>

record Metadata =
  md_name :: string
  md_type :: string
  md_description :: string
  md_provider :: "string option"

record Import =
  imp_concept_name :: string
  imp_path :: string
  imp_anchor :: "string option"

record LocalDefinition =
  def_name :: string
  def_content :: string

record Step =
  step_number :: nat
  step_instruction :: string
  step_operation_references :: "string list option"

record Checklist =
  cl_items :: "string list"

record Operation =
  op_name :: string
  op_inputs :: "string list"
  op_outputs :: "string list"
  op_steps :: "Step list"
  op_checklist :: "Checklist option"

record Provider =
  prov_action :: "string option"
  prov_parameters :: "(string \<times> string) list option"

record Tool =
  tool_name :: string
  tool_description :: string
  tool_inputs :: "string list"
  tool_outputs :: "string list"
  tool_examples :: "string list option"
  tool_providers :: "(string \<times> Provider) list option"

record Trigger =
  tr_raw_text :: string
  tr_trigger_type :: string
  tr_schedule :: "string option"
  tr_event_type :: "string option"
  tr_filter :: "(string \<times> string) list option"
  tr_operation :: string
  tr_queue_when_paused :: bool

record BusyDocument =
  doc_metadata :: Metadata
  doc_imports :: "Import list"
  doc_definitions :: "LocalDefinition list"
  doc_setup :: "string option"
  doc_operations :: "Operation list"
  doc_triggers :: "Trigger list"

record ToolDocument = BusyDocument +
  doc_tools :: "Tool list"

text \<open>What \<open>parse_document\<close> returns: a \<open>BusyDocument\<close> or its subclass \<open>ToolDocument\<close>.\<close>

datatype document = Plain BusyDocument | ToolDoc ToolDocument

definition document_base :: "document \<Rightarrow> BusyDocument" where
  \<comment> \<open>the fields every document has\<close>
  "document_base d =
     (case d of
        Plain b \<Rightarrow> b
      | ToolDoc t \<Rightarrow>
          \<lparr>doc_metadata = doc_metadata t, doc_imports = doc_imports t,
           doc_definitions = doc_definitions t, doc_setup = doc_setup t,
           doc_operations = doc_operations t, doc_triggers = doc_triggers t\<rparr>)"

definition too_short :: "string \<Rightarrow> string \<Rightarrow> (string \<times> yaml) list" where
  \<comment> \<open>the field, if it breaks \<open>min_length=1\<close>\<close>
  "too_short field v = (if length v < 1 then [(field, YStr v)] else [])"

definition validated :: "ext \<Rightarrow> string \<Rightarrow> (string \<times> yaml) list \<Rightarrow> 'a \<Rightarrow> exn + 'a" where
  "validated x model errs v =
     (if errs = [] then Inr v else Inl (ValidationError (pydantic_text x model errs)))"

definition mk_Import :: "ext \<Rightarrow> string \<Rightarrow> string \<Rightarrow> string option \<Rightarrow> exn + Import" where
  "mk_Import x c p a =
     validated x ''Import'' (too_short ''concept_name'' c @ too_short ''path'' p)
       \<lparr>imp_concept_name = c, imp_path = p, imp_anchor = a\<rparr>"

definition mk_LocalDefinition :: "ext \<Rightarrow> string \<Rightarrow> string \<Rightarrow> exn + LocalDefinition" where
  "mk_LocalDefinition x n c =
     validated x ''LocalDefinition'' (too_short ''name'' n) \<lparr>def_name = n, def_content = c\<rparr>"

definition mk_Step :: "ext \<Rightarrow> nat \<Rightarrow> string \<Rightarrow> string list option \<Rightarrow> exn + Step" where
  "mk_Step x n i refs =
     validated x ''Step''
       ((if n < 1 then [(''step_number'', YInt (int n))] else []) @ too_short ''instruction'' i)
       \<lparr>step_number = n, step_instruction = i, step_operation_references = refs\<rparr>"

definition mk_Operation ::
  "ext \<Rightarrow> string \<Rightarrow> string list \<Rightarrow> string list \<Rightarrow> Step list \<Rightarrow> Checklist option \<Rightarrow> exn + Operation"
where
  "mk_Operation x n ins outs steps cl =
     validated x ''Operation'' (too_short ''name'' n)
       \<lparr>op_name = n, op_inputs = ins, op_outputs = outs, op_steps = steps, op_checklist = cl\<rparr>"

definition mk_Tool ::
  "ext \<Rightarrow> string \<Rightarrow> string \<Rightarrow> string list \<Rightarrow> string list \<Rightarrow> string list option
     \<Rightarrow> (string \<times> Provider) list option \<Rightarrow> exn + Tool"
where
  "mk_Tool x n d ins outs exs provs =
     validated x ''Tool'' (too_short ''name'' n @ too_short ''description'' d)
       \<lparr>tool_name = n, tool_description = d, tool_inputs = ins, tool_outputs = outs,
        tool_examples = exs, tool_providers = provs\<rparr>"

definition mk_Trigger ::
  "ext \<Rightarrow> string \<Rightarrow> string \<Rightarrow> string option \<Rightarrow> string option \<Rightarrow> (string \<times> string) list option
     \<Rightarrow> string \<Rightarrow> bool \<Rightarrow> exn + Trigger"
where
  "mk_Trigger x raw ty sched ev filt opn q =
     validated x ''Trigger'' (too_short ''raw_text'' raw @ too_short ''operation'' opn)
       \<lparr>tr_raw_text = raw, tr_trigger_type = ty, tr_schedule = sched, tr_event_type = ev,
        tr_filter = filt, tr_operation = opn, tr_queue_when_paused = q\<rparr>"

text \<open>A Python dictionary with string keys, in insertion order: \<open>d[k] = v\<close> and \<open>d.update\<close>.\<close>

fun dict_set :: "(string \<times> 'v) list \<Rightarrow> string \<Rightarrow> 'v \<Rightarrow> (string \<times> 'v) list" where
  "dict_set [] k v = [(k, v)]"
| "dict_set ((k', v') # d) k v = (if k' = k then (k, v) # d else (k', v') # dict_set d k v)"

definition dict_update :: "(string \<times> 'v) list \<Rightarrow> (string \<times> 'v) list \<Rightarrow> (string \<times> 'v) list" where
  "dict_update d e = foldl (\<lambda>acc (k, v). dict_set acc k v) d e"

text \<open>Running a loop body that may raise over a list, the results collected in order.\<close>

fun mapM :: "('a \<Rightarrow> exn + 'b) \<Rightarrow> 'a list \<Rightarrow> exn + 'b list" where
  "mapM f [] = Inr []"
| "mapM f (y # ys) =
     (case f y of
        Inl e \<Rightarrow> Inl e
      | Inr v \<Rightarrow> (case mapM f ys of Inl e \<Rightarrow> Inl e | Inr vs \<Rightarrow> Inr (v # vs)))"

section \<open>The parser\<close>

subsection \<open>Frontmatter\<close>

definition frontmatter_pattern :: rx where
  \<comment> \<open>\<open>^---\s*\n(.*?)\n---\s*\n(.*)$\<close>, DOTALL\<close>
  "frontmatter_pattern =
     seqs [Bos, lits ''---'', Star ws, nl, Group 1 (LStar any), nl, lits ''---'', Star ws, nl,
           Group 2 (Star any), EosNl]"

definition type_string :: "yaml \<Rightarrow> yaml" where
  \<comment> \<open>a Type that YAML read as a list goes back to its bracket notation\<close>
  "type_string type_value =
     (case type_value of
        YList xs \<Rightarrow> (case xs of [] \<Rightarrow> YStr ''[]'' | y # _ \<Rightarrow> YStr (''['' @ py_str y @ '']''))
      | _ \<Rightarrow> type_value)"

definition str_field :: "string \<Rightarrow> nat \<Rightarrow> yaml \<Rightarrow> (string \<times> yaml) list" where
  \<comment> \<open>a \<open>str\<close> field given a loader's value: rejected unless a string of the least length\<close>
  "str_field field least y =
     (case y of
        YStr v \<Rightarrow> if length v < least then [(field, y)] else []
      | _ \<Rightarrow> [(field, y)])"

definition opt_str_field :: "string \<Rightarrow> yaml \<Rightarrow> (string \<times> yaml) list" where
  \<comment> \<open>an \<open>Optional[str]\<close> field: None or a string\<close>
  "opt_str_field field y =
     (case y of
        YNull \<Rightarrow> []
      | YStr v \<Rightarrow> []
      | _ \<Rightarrow> [(field, y)])"

definition the_str :: "yaml \<Rightarrow> string" where
  "the_str y = (case y of YStr v \<Rightarrow> v | _ \<Rightarrow> [])"

definition the_opt_str :: "yaml \<Rightarrow> string option" where
  "the_opt_str y = (case y of YStr v \<Rightarrow> Some v | _ \<Rightarrow> None)"

definition mk_Metadata :: "ext \<Rightarrow> yaml \<Rightarrow> yaml \<Rightarrow> yaml \<Rightarrow> yaml \<Rightarrow> exn + Metadata" where
  \<comment> \<open>\<open>Metadata(name=..., type=..., description=..., provider=...)\<close> on the loader's
      values\<close>
  "mk_Metadata x n t d p =
     validated x ''Metadata''
       (str_field ''name'' 1 n @ str_field ''type'' 0 t @ str_field ''description'' 1 d
          @ opt_str_field ''provider'' p)
       \<lparr>md_name = the_str n, md_type = the_str t, md_description = the_str d,
        md_provider = the_opt_str p\<rparr>"

definition metadata_of_dict :: "ext \<Rightarrow> (yaml \<times> yaml) list \<Rightarrow> exn + Metadata" where
  "metadata_of_dict x d =
     (case dict_get d ''Name'' of
        None \<Rightarrow> Inl (BusyValidationError ''Missing required field 'Name' in document metadata'')
      | Some n \<Rightarrow>
     (case dict_get d ''Type'' of
        None \<Rightarrow> Inl (BusyValidationError ''Missing required field 'Type' in document metadata'')
      | Some t \<Rightarrow>
     (case dict_get d ''Description'' of
        None \<Rightarrow>
          Inl (BusyValidationError ''Missing required field 'Description' in document metadata'')
      | Some ds \<Rightarrow>
     (case mk_Metadata x n (type_string t) ds (py_get d ''Provider'') of
        Inl e \<Rightarrow> Inl (BusyValidationError (''Invalid metadata data: '' @ exn_str e))
      | Inr md \<Rightarrow> Inr md))))"

definition metadata_of_yaml ::
  "ext \<Rightarrow> string \<Rightarrow> string \<Rightarrow> exn + (Metadata \<times> string \<times> (yaml \<times> yaml) list)"
where
  \<comment> \<open>the frontmatter's text loaded and checked; the body goes with the result. Of what
      the loader raises only a \<open>yaml.YAMLError\<close> is caught.\<close>
  "metadata_of_yaml x yaml_content remaining_content =
     (case safe_load x yaml_content of
        Inl e \<Rightarrow>
          (case e of
             YAMLError msg \<Rightarrow> Inl (BusyValidationError (''Invalid YAML in frontmatter: '' @ msg))
           | _ \<Rightarrow> Inl e)
      | Inr data \<Rightarrow>
          (case data of
             YDict d \<Rightarrow>
               (case metadata_of_dict x d of
                  Inl e \<Rightarrow> Inl e
                | Inr md \<Rightarrow> Inr (md, remaining_content, d))
           | _ \<Rightarrow> Inl (BusyValidationError ''Document metadata must be a YAML dictionary'')))"

definition extract_metadata ::
  "ext \<Rightarrow> string \<Rightarrow> exn + (Metadata \<times> string \<times> (yaml \<times> yaml) list)"
where
  "extract_metadata x content =
     (case re_match frontmatter_pattern content of
        None \<Rightarrow>
          Inl (BusyValidationError
                ''Document missing metadata section (YAML frontmatter with --- fences)'')
      | Some m \<Rightarrow> metadata_of_yaml x (group_str content m 1) (group_str content m 2))"

subsection \<open>Imports, local definitions, setup\<close>

definition imports_pattern :: rx where
  \<comment> \<open>\<open>\[([^\]]+)\]:\s*([^\s#]+)(?:#([^\s]+))?\<close>\<close>
  "imports_pattern =
     seqs [Lit CHR ''['', Group 1 (Plus (Chr (\<lambda>c. c \<noteq> CHR '']''))), Lit CHR '']'', Lit CHR '':'',
           Star ws, Group 2 (Plus (Chr (\<lambda>c. \<not> isspace c \<and> c \<noteq> CHR ''#''))),
           Opt (Seq (Lit CHR ''#'') (Group 3 (Plus (Chr (\<lambda>c. \<not> isspace c)))))]"

definition import_of_match :: "ext \<Rightarrow> string \<Rightarrow> rmatch \<Rightarrow> exn + Import" where
  "import_of_match x content m =
     mk_Import x (group_str content m 1) (group_str content m 2)
       (case group content m 3 of None \<Rightarrow> None | Some a \<Rightarrow> if a = [] then None else Some a)"

definition parse_imports :: "ext \<Rightarrow> string \<Rightarrow> exn + Import list" where
  "parse_imports x content = mapM (import_of_match x content) (re_finditer imports_pattern content)"

definition bracket_pattern :: rx where
  \<comment> \<open>\<open>^\[(.+)\]$\<close>\<close>
  "bracket_pattern = seqs [Bos, Lit CHR ''['', Group 1 (Plus dot), Lit CHR '']'', EosNl]"

definition unbracket :: "string \<Rightarrow> string" where
  \<comment> \<open>\<open>re.sub(r"^\[(.+)\]$", r"\1", name)\<close>; the pattern can match at the start only\<close>
  "unbracket name =
     (case re_search bracket_pattern name of
        None \<Rightarrow> name
      | Some m \<Rightarrow> take (m_start m) name @ group_str name m 1 @ drop (m_end m) name)"

definition local_def_pattern :: rx where
  \<comment> \<open>\<open>#\s+(?:\[Local Definitions\]|Local Definitions)\s*\n(.*?)(?=\n#\s+|\Z)\<close>, DOTALL\<close>
  "local_def_pattern =
     seqs [Lit CHR ''#'', Plus ws, Alt (lits ''[Local Definitions]'') (lits ''Local Definitions''),
           Star ws, nl, Group 1 (LStar any),
           Look (Alt (seqs [nl, Lit CHR ''#'', Plus ws]) Eos)]"

definition definition_heading_pattern :: rx where
  \<comment> \<open>\<open>##\s+([^\n]+)\n(.*?)(?=\n##\s+|\Z)\<close>, DOTALL\<close>
  "definition_heading_pattern =
     seqs [lits ''##'', Plus ws, Group 1 (Plus dot), nl, Group 2 (LStar any),
           Look (Alt (seqs [nl, lits ''##'', Plus ws]) Eos)]"

definition definition_of_match :: "ext \<Rightarrow> string \<Rightarrow> rmatch \<Rightarrow> exn + LocalDefinition" where
  "definition_of_match x section_content m =
     mk_LocalDefinition x (unbracket (strip (group_str section_content m 1)))
       (strip (group_str section_content m 2))"

definition parse_local_definitions :: "ext \<Rightarrow> string \<Rightarrow> exn + LocalDefinition list" where
  "parse_local_definitions x content =
     (case re_search local_def_pattern content of
        None \<Rightarrow> Inr []
      | Some m \<Rightarrow>
          mapM (definition_of_match x (group_str content m 1))
            (re_finditer definition_heading_pattern (group_str content m 1)))"

definition setup_pattern :: rx where
  \<comment> \<open>\<open>#\s+(?:\[Setup\]|Setup)\s*\n(.*?)(?=\n#\s+|\Z)\<close>, DOTALL\<close>
  "setup_pattern =
     seqs [Lit CHR ''#'', Plus ws, Alt (lits ''[Setup]'') (lits ''Setup''), Star ws, nl,
           Group 1 (LStar any), Look (Alt (seqs [nl, Lit CHR ''#'', Plus ws]) Eos)]"

definition parse_setup :: "string \<Rightarrow> string option" where
  "parse_setup content =
     (case re_search setup_pattern content of
        None \<Rightarrow> None
      | Some m \<Rightarrow> Some (strip (group_str content m 1)))"

subsection \<open>Code fences and the items of a section\<close>

definition fence_pattern :: rx where
  \<comment> \<open>\<open>^```[^\n]*\n(.*?)^```\<close>, DOTALL and MULTILINE\<close>
  "fence_pattern =
     seqs [Bol, lits ''```'', Star dot, nl, Group 1 (LStar any), Bol, lits ''```'']"

definition find_code_fence_regions :: "string \<Rightarrow> (nat \<times> nat) list" where
  "find_code_fence_regions content =
     map (\<lambda>m. (m_start m, m_end m)) (re_finditer fence_pattern content)"

definition is_position_in_code_fence :: "nat \<Rightarrow> (nat \<times> nat) list \<Rightarrow> bool" where
  "is_position_in_code_fence p fence_regions =
     list_ex (\<lambda>(start, end). start \<le> p \<and> p < end) fence_regions"

definition heading_pattern :: rx where
  \<comment> \<open>\<open>^##\s+([^\n]+)\<close>, MULTILINE\<close>
  "heading_pattern = seqs [Bol, lits ''##'', Plus ws, Group 1 (Plus dot)]"

definition heading_line_pattern :: rx where
  \<comment> \<open>\<open>^##\s+[^\n]+\n\<close>\<close>
  "heading_line_pattern = seqs [Bos, lits ''##'', Plus ws, Plus dot, nl]"

definition item_boundaries :: "string \<Rightarrow> (nat \<times> string) list" where
  \<comment> \<open>\<open>operation_boundaries\<close> of \<open>_parse_operations\<close> and \<open>tool_boundaries\<close> of
      \<open>_parse_tools_section\<close>, which compute them with the same code: the \<open>##\<close> headings
      outside the code fences, each with its offset and its name\<close>
  "item_boundaries section_content =
     map (\<lambda>m. (m_start m, unbracket (strip (group_str section_content m 1))))
       (filter (\<lambda>m. \<not> is_position_in_code_fence (m_start m)
                        (find_code_fence_regions section_content))
          (re_finditer heading_pattern section_content))"

fun item_spans :: "(nat \<times> string) list \<Rightarrow> nat \<Rightarrow> (nat \<times> nat \<times> string) list" where
  \<comment> \<open>each boundary with its end: the next boundary, or the end of the section\<close>
  "item_spans [] n = []"
| "item_spans [(start_pos, name)] n = [(start_pos, n, name)]"
| "item_spans ((start_pos, name) # (next_pos, next_name) # bs) n =
     (start_pos, next_pos, name) # item_spans ((next_pos, next_name) # bs) n"

definition item_content :: "string \<Rightarrow> nat \<Rightarrow> nat \<Rightarrow> string" where
  \<comment> \<open>\<open>op_content\<close> and \<open>tool_content\<close>: the item's text, its heading line removed,
      stripped\<close>
  "item_content section_content start_pos end_pos =
     strip (re_sub_first heading_line_pattern (slice section_content start_pos end_pos))"

definition bullets :: "string \<Rightarrow> string list" where
  \<comment> \<open>the loop over \<open>text.split("\n")\<close> that keeps the lines starting with \<open>-\<close> or \<open>*\<close>\<close>
  "bullets text =
     map (\<lambda>line. strip (lstrip_chars ''-*'' line))
       (filter (\<lambda>line. startswith line ''-'' \<or> startswith line ''*'')
          (map strip (split_on CHR 0x0A text)))"

subsection \<open>Operations\<close>

definition quoted :: "string \<Rightarrow> string" where
  \<comment> \<open>\<open>'{s}'\<close> in an f-string\<close>
  "quoted s = [CHR 0x27] @ s @ [CHR 0x27]"

definition operations_pattern :: rx where
  \<comment> \<open>\<open>#\s+(?:\[Operations\]|Operations)\s*\n(.*)$\<close>, DOTALL\<close>
  "operations_pattern =
     seqs [Lit CHR ''#'', Plus ws, Alt (lits ''[Operations]'') (lits ''Operations''), Star ws, nl,
           Group 1 (Star any), EosNl]"

definition step_pattern :: rx where
  \<comment> \<open>\<open>(\d+)\.\s+([^\n]+(?:\n(?!\d+\.)[^\n]+)*)\<close>\<close>
  "step_pattern =
     seqs [Group 1 (Plus dig), Lit CHR ''.'', Plus ws,
           Group 2 (Seq (Plus dot)
                        (Star (seqs [nl, NLook (Seq (Plus dig) (Lit CHR ''.'')), Plus dot])))]"

definition reference_pattern :: rx where
  \<comment> \<open>\<open>\[([^\]]+)\]\<close>\<close>
  "reference_pattern = seqs [Lit CHR ''['', Group 1 (Plus (Chr (\<lambda>c. c \<noteq> CHR '']''))), Lit CHR '']'']"

definition step_of_match :: "ext \<Rightarrow> string \<Rightarrow> rmatch \<Rightarrow> exn + Step" where
  "step_of_match x steps_text m =
     (case py_int x (group_str steps_text m 1) of
        Inl e \<Rightarrow> Inl e
      | Inr n \<Rightarrow>
          mk_Step x n (strip (group_str steps_text m 2))
            (case re_findall1 reference_pattern (strip (group_str steps_text m 2)) of
               [] \<Rightarrow> None
             | r # rs \<Rightarrow> Some (r # rs)))"

definition plural :: "string \<Rightarrow> rx" where
  \<comment> \<open>\<open>(?:\[Xs?\]|Xs?)\<close>\<close>
  "plural label =
     Alt (seqs [Lit CHR ''['', lits label, Opt (Lit CHR ''s''), Lit CHR '']''])
         (seqs [lits label, Opt (Lit CHR ''s'')])"

definition subsection_pattern :: "rx \<Rightarrow> rx \<Rightarrow> rx" where
  \<comment> \<open>\<open>###\s+label\s*\n(.*?)(?=stop)\<close>, DOTALL\<close>
  "subsection_pattern label stop =
     seqs [lits ''###'', Plus ws, label, Star ws, nl, Group 1 (LStar any), Look stop]"

definition next_h3 :: rx where
  \<comment> \<open>\<open>\n###\s+|\Z\<close>\<close>
  "next_h3 = Alt (seqs [nl, lits ''###'', Plus ws]) Eos"

definition subsection_bullets :: "rx \<Rightarrow> string \<Rightarrow> string list" where
  "subsection_bullets pattern content =
     (case re_search pattern content of
        None \<Rightarrow> []
      | Some m \<Rightarrow> bullets (group_str content m 1))"

definition parse_steps :: "ext \<Rightarrow> string \<Rightarrow> exn + Step list" where
  "parse_steps x op_content =
     (case re_search (subsection_pattern (plural ''Step'') next_h3) op_content of
        None \<Rightarrow> Inr []
      | Some m \<Rightarrow>
          mapM (step_of_match x (group_str op_content m 1))
            (re_finditer step_pattern (group_str op_content m 1)))"

definition checklist_pattern :: rx where
  \<comment> \<open>\<open>###\s+(?:\[Checklist\]|Checklist)\s*\n(.*?)(?=\n###\s+|\n##\s+|\Z)\<close>, DOTALL\<close>
  "checklist_pattern =
     subsection_pattern (Alt (lits ''[Checklist]'') (lits ''Checklist''))
       (Alt (seqs [nl, lits ''###'', Plus ws]) (Alt (seqs [nl, lits ''##'', Plus ws]) Eos))"

definition parse_checklist :: "string \<Rightarrow> Checklist option" where
  "parse_checklist op_content =
     (case subsection_bullets checklist_pattern op_content of
        [] \<Rightarrow> None
      | i # is \<Rightarrow> Some \<lparr>cl_items = i # is\<rparr>)"

definition operation_of_item :: "ext \<Rightarrow> string \<Rightarrow> string \<Rightarrow> exn + Operation" where
  \<comment> \<open>the body of the loop over the boundaries, from the item's name and content\<close>
  "operation_of_item x name op_content =
     (case parse_steps x op_content of
        Inl e \<Rightarrow> Inl e
      | Inr steps \<Rightarrow>
          mk_Operation x name
            (subsection_bullets (subsection_pattern (plural ''Input'') next_h3) op_content)
            (subsection_bullets (subsection_pattern (plural ''Output'') next_h3) op_content)
            steps (parse_checklist op_content))"

definition operations_of_section :: "ext \<Rightarrow> string \<Rightarrow> exn + Operation list" where
  "operations_of_section x section_content =
     mapM (\<lambda>(start_pos, end_pos, name).
             operation_of_item x name (item_content section_content start_pos end_pos))
       (item_spans (item_boundaries section_content) (length section_content))"

definition parse_operations :: "ext \<Rightarrow> string \<Rightarrow> exn + Operation list" where
  "parse_operations x content =
     (case re_search operations_pattern content of
        None \<Rightarrow> Inr []
      | Some m \<Rightarrow> operations_of_section x (group_str content m 1))"

subsection \<open>Tools\<close>

definition tools_pattern :: rx where
  \<comment> \<open>\<open>#\s+(?:\[Operations?\]|Operations?)\s*\n(.*)$\<close>, DOTALL\<close>
  "tools_pattern =
     seqs [Lit CHR ''#'', Plus ws, plural ''Operation'', Star ws, nl, Group 1 (Star any), EosNl]"

definition desc_pattern :: rx where
  \<comment> \<open>\<open>^(.*?)(?=\n###\s+|\Z)\<close>, DOTALL\<close>
  "desc_pattern = seqs [Bos, Group 1 (LStar any), Look next_h3]"

definition providers_pattern :: rx where
  \<comment> \<open>\<open>###\s+(?:\[Providers?\]|Providers?)\s*\n(.*?)(?=\n##\s+|\Z)\<close>, DOTALL\<close>
  "providers_pattern =
     subsection_pattern (plural ''Provider'') (Alt (seqs [nl, lits ''##'', Plus ws]) Eos)"

definition provider_heading_pattern :: rx where
  \<comment> \<open>\<open>####\s+([^\n]+)\n(.*?)(?=\n####\s+|\Z)\<close>, DOTALL\<close>
  "provider_heading_pattern =
     seqs [lits ''####'', Plus ws, Group 1 (Plus dot), nl, Group 2 (LStar any),
           Look (Alt (seqs [nl, lits ''####'', Plus ws]) Eos)]"

definition action_pattern :: rx where
  \<comment> \<open>\<open>Action:\s*([^\n]+)\<close>\<close>
  "action_pattern = seqs [lits ''Action:'', Star ws, Group 1 (Plus dot)]"

definition parameters_pattern :: rx where
  \<comment> \<open>\<open>Parameters:\s*\n(.*?)(?=\n(?:Action|####)|\Z)\<close>, DOTALL\<close>
  "parameters_pattern =
     seqs [lits ''Parameters:'', Star ws, nl, Group 1 (LStar any),
           Look (Alt (Seq nl (Alt (lits ''Action'') (lits ''####''))) Eos)]"

definition parameters_of :: "string \<Rightarrow> (string \<times> string) list" where
  \<comment> \<open>the loop over the lines of the parameters: every line with a colon sets a key\<close>
  "parameters_of params_text =
     foldl (\<lambda>parameters line.
              case split_once CHR '':'' line of (key, v) \<Rightarrow> dict_set parameters (strip key) (strip v))
       [] (filter (\<lambda>line. CHR '':'' \<in> set line) (map strip (split_on CHR 0x0A params_text)))"

definition provider_of_content :: "string \<Rightarrow> Provider" where
  "provider_of_content provider_content =
     \<lparr>prov_action =
        (case re_search action_pattern provider_content of
           None \<Rightarrow> None
         | Some m \<Rightarrow> Some (strip (group_str provider_content m 1))),
      prov_parameters =
        (case re_search parameters_pattern provider_content of
           None \<Rightarrow> None
         | Some m \<Rightarrow>
             (case parameters_of (group_str provider_content m 1) of
                [] \<Rightarrow> None
              | p # ps \<Rightarrow> Some (p # ps)))\<rparr>"

definition providers_of_text :: "string \<Rightarrow> (string \<times> Provider) list" where
  \<comment> \<open>the loop over the \<open>####\<close> headings of the providers' text\<close>
  "providers_of_text providers_text =
     foldl (\<lambda>providers pm.
              dict_set providers (strip (group_str providers_text pm 1))
                (provider_of_content (strip (group_str providers_text pm 2))))
       [] (re_finditer provider_heading_pattern providers_text)"

definition providers_of :: "string \<Rightarrow> (string \<times> Provider) list" where
  "providers_of tool_content =
     (case re_search providers_pattern tool_content of
        None \<Rightarrow> []
      | Some m \<Rightarrow> providers_of_text (group_str tool_content m 1))"

definition tool_description_of :: "string \<Rightarrow> string" where
  "tool_description_of tool_content =
     (case re_search desc_pattern tool_content of
        None \<Rightarrow> []
      | Some m \<Rightarrow> strip (group_str tool_content m 1))"

definition tool_of_item :: "ext \<Rightarrow> string \<Rightarrow> string \<Rightarrow> exn + Tool" where
  \<comment> \<open>the body of the loop over the boundaries, from the item's name and content\<close>
  "tool_of_item x name tool_content =
     (if tool_description_of tool_content = []
      then Inl (BusyValidationError (''Tool '' @ quoted name @ '' missing description''))
      else mk_Tool x name (tool_description_of tool_content)
             (subsection_bullets (subsection_pattern (plural ''Input'') next_h3) tool_content)
             (subsection_bullets (subsection_pattern (plural ''Output'') next_h3) tool_content)
             (case subsection_bullets (subsection_pattern (plural ''Example'') next_h3) tool_content of
                [] \<Rightarrow> None
              | e # es \<Rightarrow> Some (e # es))
             (case providers_of tool_content of
                [] \<Rightarrow> None
              | p # ps \<Rightarrow> Some (p # ps)))"

definition tools_of_section :: "ext \<Rightarrow> string \<Rightarrow> exn + Tool list" where
  "tools_of_section x section_content =
     mapM (\<lambda>(start_pos, end_pos, name).
             tool_of_item x name (item_content section_content start_pos end_pos))
       (item_spans (item_boundaries section_content) (length section_content))"

definition parse_tools_section :: "ext \<Rightarrow> string \<Rightarrow> exn + Tool list" where
  "parse_tools_section x content =
     (case re_search tools_pattern content of
        None \<Rightarrow> Inr []
      | Some m \<Rightarrow> tools_of_section x (group_str content m 1))"

subsection \<open>Triggers\<close>

definition hour_pattern :: rx where
  \<comment> \<open>\<open>(\d{1,2})(?::(\d{2}))?\s*(am|pm)?\<close>\<close>
  "hour_pattern =
     seqs [Group 1 (Seq dig (Opt dig)), Opt (Seq (Lit CHR '':'') (Group 2 (Seq dig dig))), Star ws,
           Opt (Group 3 (Alt (lits ''am'') (lits ''pm'')))]"

definition to_24_hour :: "nat \<Rightarrow> string option \<Rightarrow> nat" where
  \<comment> \<open>convert 12-hour to 24-hour\<close>
  "to_24_hour hour am_pm =
     (if am_pm = Some ''pm'' \<and> hour \<noteq> 12 then hour + 12
      else if am_pm = Some ''am'' \<and> hour = 12 then 0
      else hour)"

definition day_of_week :: "string \<Rightarrow> string" where
  "day_of_week time_spec_lower =
     (if contains ''monday'' time_spec_lower then ''1''
      else if contains ''tuesday'' time_spec_lower then ''2''
      else if contains ''wednesday'' time_spec_lower then ''3''
      else if contains ''thursday'' time_spec_lower then ''4''
      else if contains ''friday'' time_spec_lower then ''5''
      else if contains ''saturday'' time_spec_lower then ''6''
      else if contains ''sunday'' time_spec_lower then ''0''
      else ''*'')"

definition cron :: "nat \<Rightarrow> nat \<Rightarrow> string \<Rightarrow> string" where
  \<comment> \<open>\<open>f"{minute} {hour} * * {day_of_week}"\<close>\<close>
  "cron minute hour dow = str_nat minute @ '' '' @ str_nat hour @ '' * * '' @ dow"

definition parse_time_spec :: "string \<Rightarrow> exn + string" where
  \<comment> \<open>the two calls of \<open>int\<close> are on the groups \<open>\d{1,2}\<close> and \<open>\d{2}\<close>, one or two
      digits, which no limit on the digits of \<open>int\<close> concerns\<close>
  "parse_time_spec time_spec =
     (case re_search hour_pattern (lower time_spec) of
        None \<Rightarrow> Inl (ValueError (''Cannot parse time from '' @ quoted time_spec))
      | Some m \<Rightarrow>
          Inr (cron
                (case group (lower time_spec) m 2 of
                   None \<Rightarrow> 0
                 | Some g \<Rightarrow> if g = [] then 0 else int_of_digits g)
                (to_24_hour (int_of_digits (group_str (lower time_spec) m 1))
                   (group (lower time_spec) m 3))
                (day_of_week (lower time_spec))))"

definition parse_filter_spec :: "string \<Rightarrow> (string \<times> string) list" where
  "parse_filter_spec filter_spec = [(''from'', filter_spec)]"

definition alarm_pattern :: rx where
  \<comment> \<open>\<open>(?i)set\s+alarm\s+for\s+(.+?)\s+to\s+run\s+(\w+)\<close>\<close>
  "alarm_pattern =
     seqs [cis ''set'', Plus ws, cis ''alarm'', Plus ws, cis ''for'', Plus ws, Group 1 (LPlus dot),
           Plus ws, cis ''to'', Plus ws, cis ''run'', Plus ws, Group 2 (Plus wordc)]"

definition event_pattern :: rx where
  \<comment> \<open>\<open>(?i)when\s+([\w.]+)(?:\s+from\s+(.+?))?,\s*run\s+(\w+)\<close>\<close>
  "event_pattern =
     seqs [cis ''when'', Plus ws, Group 1 (Plus (Chr (\<lambda>c. isword c \<or> c = CHR ''.''))),
           Opt (seqs [Plus ws, cis ''from'', Plus ws, Group 2 (LPlus dot)]),
           Lit CHR '','', Star ws, cis ''run'', Plus ws, Group 3 (Plus wordc)]"

definition unrecognized :: string where
  "unrecognized =
     ''Unrecognized trigger format. Expected ''
       @ quoted ''Set alarm for <time> to run <Operation>'' @ '' or ''
       @ quoted ''When <event> [from <filter>], run <Operation>''"

definition alarm_trigger :: "ext \<Rightarrow> string \<Rightarrow> rmatch \<Rightarrow> exn + Trigger" where
  "alarm_trigger x text m =
     (case parse_time_spec (strip (group_str text m 1)) of
        Inl e \<Rightarrow> Inl e
      | Inr schedule \<Rightarrow>
          mk_Trigger x text ''alarm'' (Some schedule) None None (strip (group_str text m 2)) True)"

definition event_filter :: "string \<Rightarrow> rmatch \<Rightarrow> (string \<times> string) list option" where
  \<comment> \<open>\<open>filter_dict\<close>: set when the from-phrase is there and not empty once stripped\<close>
  "event_filter text m =
     (case group text m 2 of
        None \<Rightarrow> None
      | Some g \<Rightarrow>
          if g = [] then None
          else if strip g = [] then None
          else Some (parse_filter_spec (strip g)))"

definition event_trigger :: "ext \<Rightarrow> string \<Rightarrow> rmatch \<Rightarrow> exn + Trigger" where
  "event_trigger x text m =
     mk_Trigger x text ''event'' None (Some (strip (group_str text m 1))) (event_filter text m)
       (strip (group_str text m 3)) True"

definition parse_trigger_declaration :: "ext \<Rightarrow> string \<Rightarrow> exn + Trigger" where
  "parse_trigger_declaration x text =
     (case re_match alarm_pattern text of
        Some m \<Rightarrow> alarm_trigger x text m
      | None \<Rightarrow>
          (case re_match event_pattern text of
             Some m \<Rightarrow> event_trigger x text m
           | None \<Rightarrow> Inl (ValueError unrecognized)))"

definition triggers_pattern :: rx where
  \<comment> \<open>\<open>#\s+(?:\[Triggers?\]|Triggers?)\s*\n(.*)(?=\n#\s+[^\n]+\n|\Z)\<close>, DOTALL\<close>
  "triggers_pattern =
     seqs [Lit CHR ''#'', Plus ws, plural ''Trigger'', Star ws, nl, Group 1 (Star any),
           Look (Alt (seqs [nl, Lit CHR ''#'', Plus ws, Plus dot, nl]) Eos)]"

definition trigger_of_text :: "ext \<Rightarrow> string \<Rightarrow> exn + Trigger" where
  \<comment> \<open>the try block of the loop: whatever the declaration raises becomes a validation error\<close>
  "trigger_of_text x trigger_text =
     (case parse_trigger_declaration x trigger_text of
        Inl e \<Rightarrow>
          Inl (BusyValidationError
                (''Invalid trigger declaration '' @ quoted trigger_text @ '': '' @ exn_str e))
      | Inr t \<Rightarrow> Inr t)"

definition trigger_texts :: "string \<Rightarrow> string list" where
  \<comment> \<open>the bullet lines of the section, the marker removed, the empty ones skipped\<close>
  "trigger_texts section_content =
     filter (\<lambda>trigger_text. trigger_text \<noteq> [])
       (map (\<lambda>line. strip (lstrip_chars ''-*'' line))
          (filter (\<lambda>line. line \<noteq> [] \<and> (startswith line ''-'' \<or> startswith line ''*''))
             (map strip (split_on CHR 0x0A section_content))))"

definition parse_triggers :: "ext \<Rightarrow> string \<Rightarrow> exn + Trigger list" where
  "parse_triggers x content =
     (case re_search triggers_pattern content of
        None \<Rightarrow> Inr []
      | Some m \<Rightarrow> mapM (trigger_of_text x) (trigger_texts (group_str content m 1)))"

definition filter_field :: "yaml \<Rightarrow> (string \<times> yaml) list" where
  \<comment> \<open>the field \<open>filter: Optional[dict[str, str]]\<close> given a loader's value\<close>
  "filter_field f =
     (case f of
        YNull \<Rightarrow> []
      | YDict d \<Rightarrow>
          if list_all (\<lambda>(k, v). (case k of YStr _ \<Rightarrow> True | _ \<Rightarrow> False)
                                \<and> (case v of YStr _ \<Rightarrow> True | _ \<Rightarrow> False)) d
          then [] else [(''filter'', f)]
      | _ \<Rightarrow> [(''filter'', f)])"

definition the_filter :: "yaml \<Rightarrow> (string \<times> string) list option" where
  "the_filter f =
     (case f of
        YDict d \<Rightarrow> Some (map (\<lambda>(k, v). (the_str k, the_str v)) d)
      | _ \<Rightarrow> None)"

definition bool_field :: "ext \<Rightarrow> string \<Rightarrow> yaml \<Rightarrow> (string \<times> yaml) list" where
  \<comment> \<open>a \<open>bool\<close> field given a loader's value: a boolean, or what pydantic reads as one\<close>
  "bool_field x field q =
     (case q of
        YBool b \<Rightarrow> []
      | _ \<Rightarrow> (case coerce_bool x q of None \<Rightarrow> [(field, q)] | Some b \<Rightarrow> []))"

definition the_bool :: "ext \<Rightarrow> yaml \<Rightarrow> bool" where
  "the_bool x q =
     (case q of
        YBool b \<Rightarrow> b
      | _ \<Rightarrow> (case coerce_bool x q of None \<Rightarrow> False | Some b \<Rightarrow> b))"

definition mk_frontmatter_Trigger ::
  "ext \<Rightarrow> yaml \<Rightarrow> yaml \<Rightarrow> string \<Rightarrow> yaml \<Rightarrow> exn + Trigger"
where
  \<comment> \<open>\<open>Trigger(raw_text=f"Frontmatter trigger: {event_type}", trigger_type="event",
      event_type=event_type, filter=filters, operation=metadata.name,
      queue_when_paused=queue_when_paused)\<close> on the loader's values\<close>
  "mk_frontmatter_Trigger x event_type filters opn q =
     validated x ''Trigger''
       (opt_str_field ''event_type'' event_type @ filter_field filters
          @ too_short ''operation'' opn @ bool_field x ''queue_when_paused'' q)
       \<lparr>tr_raw_text = ''Frontmatter trigger: '' @ py_str event_type,
        tr_trigger_type = ''event'', tr_schedule = None,
        tr_event_type = the_opt_str event_type, tr_filter = the_filter filters,
        tr_operation = opn, tr_queue_when_paused = the_bool x q\<rparr>"

definition is_dict :: "yaml \<Rightarrow> bool" where
  "is_dict y = (case y of YDict d \<Rightarrow> True | _ \<Rightarrow> False)"

definition frontmatter_trigger :: "ext \<Rightarrow> Metadata \<Rightarrow> yaml \<Rightarrow> exn + Trigger" where
  \<comment> \<open>the body of the loop over the frontmatter's triggers\<close>
  "frontmatter_trigger x metadata trigger_dict =
     (case trigger_dict of
        YDict d \<Rightarrow>
          if \<not> truthy (py_get d ''event_type'')
          then Inl (BusyValidationError ''Frontmatter trigger missing required field: event_type'')
          else if truthy (py_get d ''filters'') \<and> \<not> is_dict (py_get d ''filters'')
          then Inl (BusyValidationError
                     (''Trigger filters must be a dictionary, got: ''
                        @ type_repr (py_get d ''filters'')))
          else mk_frontmatter_Trigger x (py_get d ''event_type'') (py_get d ''filters'')
                 (md_name metadata)
                 (case dict_get d ''queue_when_paused'' of None \<Rightarrow> YBool True | Some q \<Rightarrow> q)
      | _ \<Rightarrow>
          Inl (BusyValidationError
                (''Each trigger in frontmatter must be a dictionary, got: ''
                   @ type_repr trigger_dict)))"

definition parse_frontmatter_triggers ::
  "ext \<Rightarrow> (yaml \<times> yaml) list \<Rightarrow> Metadata \<Rightarrow> exn + Trigger list"
where
  "parse_frontmatter_triggers x frontmatter_data metadata =
     (if \<not> truthy (py_get frontmatter_data ''Triggers'') then Inr []
      else
        (case py_get frontmatter_data ''Triggers'' of
           YList ts \<Rightarrow> mapM (frontmatter_trigger x metadata) ts
         | _ \<Rightarrow>
             Inl (BusyValidationError
                   ''Frontmatter Triggers field must be a list of trigger declarations'')))"

subsection \<open>The document\<close>

definition no_tools :: string where
  "no_tools = ''Tool document must contain at least one tool definition in Tools section''"

definition tool_document ::
  "ext \<Rightarrow> Metadata \<Rightarrow> Import list \<Rightarrow> LocalDefinition list \<Rightarrow> string option \<Rightarrow> Operation list
     \<Rightarrow> string \<Rightarrow> exn + document"
where
  \<comment> \<open>the branch of a document whose type is \<open>[Tool]\<close>\<close>
  "tool_document x metadata imports definitions setup operations remaining_content =
     (case parse_tools_section x remaining_content of
        Inl e \<Rightarrow> Inl e
      | Inr tools \<Rightarrow>
          if tools = [] then Inl (BusyValidationError no_tools)
          else Inr (ToolDoc
                 \<lparr>doc_metadata = metadata, doc_imports = imports, doc_definitions = definitions,
                  doc_setup = setup, doc_operations = operations, doc_triggers = [],
                  doc_tools = tools\<rparr>))"

definition plain_document ::
  "ext \<Rightarrow> Metadata \<Rightarrow> Import list \<Rightarrow> LocalDefinition list \<Rightarrow> string option \<Rightarrow> Operation list
     \<Rightarrow> (yaml \<times> yaml) list \<Rightarrow> string \<Rightarrow> exn + document"
where
  \<comment> \<open>the branch of every other document\<close>
  "plain_document x metadata imports definitions setup operations frontmatter_data
       remaining_content =
     (case parse_frontmatter_triggers x frontmatter_data metadata of
        Inl e \<Rightarrow> Inl e
      | Inr frontmatter_triggers \<Rightarrow>
          (case parse_triggers x remaining_content of
             Inl e \<Rightarrow> Inl e
           | Inr markdown_triggers \<Rightarrow>
               Inr (Plain
                 \<lparr>doc_metadata = metadata, doc_imports = imports, doc_definitions = definitions,
                  doc_setup = setup, doc_operations = operations,
                  doc_triggers = frontmatter_triggers @ markdown_triggers\<rparr>)))"

definition parse_sections ::
  "ext \<Rightarrow> Metadata \<Rightarrow> string \<Rightarrow> (yaml \<times> yaml) list \<Rightarrow> exn + document"
where
  \<comment> \<open>the sections in order, then the branch on the type\<close>
  "parse_sections x metadata remaining_content frontmatter_data =
     (case parse_imports x remaining_content of
        Inl e \<Rightarrow> Inl e
      | Inr imports \<Rightarrow>
     (case parse_local_definitions x remaining_content of
        Inl e \<Rightarrow> Inl e
      | Inr definitions \<Rightarrow>
     (case parse_operations x remaining_content of
        Inl e \<Rightarrow> Inl e
      | Inr operations \<Rightarrow>
          if md_type metadata = ''[Tool]''
          then tool_document x metadata imports definitions (parse_setup remaining_content)
                 operations remaining_content
          else plain_document x metadata imports definitions (parse_setup remaining_content)
                 operations frontmatter_data remaining_content)))"

definition parse_document_try :: "ext \<Rightarrow> string \<Rightarrow> exn + document" where
  \<comment> \<open>the body of the try block of \<open>parse_document\<close>\<close>
  "parse_document_try x content =
     (case extract_metadata x content of
        Inl e \<Rightarrow> Inl e
      | Inr (metadata, remaining_content, frontmatter_data) \<Rightarrow>
          parse_sections x metadata remaining_content frontmatter_data)"

definition parse_error_prefix :: string where
  "parse_error_prefix = ''Failed to parse BUSY document: ''"

definition document_handler :: "exn \<Rightarrow> exn" where
  \<comment> \<open>the except clauses of \<open>parse_document\<close>: validation and import errors are raised
      again as they are, any other exception is wrapped in a parse error\<close>
  "document_handler e =
     (case e of
        BusyValidationError m \<Rightarrow> e
      | BusyImportError m \<Rightarrow> e
      | _ \<Rightarrow> BusyParseError (parse_error_prefix @ exn_str e))"

definition parse_document :: "ext \<Rightarrow> string \<Rightarrow> exn + document" where
  "parse_document x content =
     (case parse_document_try x content of
        Inl e \<Rightarrow> Inl (document_handler e)
      | Inr d \<Rightarrow> Inr d)"

subsection \<open>Resolving imports\<close>

text \<open>
  The file system and \<open>pathlib\<close>, a path being its string: \<open>base / path\<close>, \<open>exists()\<close>,
  \<open>str(resolve())\<close>, \<open>read_text()\<close> and \<open>parent\<close>.
\<close>

record fs =
  fs_join :: "string \<Rightarrow> string \<Rightarrow> string"
  fs_exists :: "string \<Rightarrow> bool"
  fs_resolve :: "string \<Rightarrow> string"
  fs_read_text :: "string \<Rightarrow> exn + string"
  fs_parent :: "string \<Rightarrow> string"

definition anchor_of_name :: "string \<Rightarrow> string" where
  \<comment> \<open>\<open>name.lower().replace(" ", "-")\<close>\<close>
  "anchor_of_name name = replace_char CHR '' '' CHR ''-'' (lower name)"

definition anchor_found :: "document \<Rightarrow> string \<Rightarrow> bool" where
  "anchor_found imported_doc a =
     (list_ex (\<lambda>opn. anchor_of_name (op_name opn) = lower a)
        (doc_operations (document_base imported_doc))
      \<or> list_ex (\<lambda>defn. anchor_of_name (def_name defn) = lower a)
           (doc_definitions (document_base imported_doc)))"

definition not_found_error :: "Import \<Rightarrow> string \<Rightarrow> exn" where
  "not_found_error import_ref import_path =
     BusyImportError (''Import path '' @ quoted (imp_path import_ref)
                        @ '' not found (resolved to '' @ import_path @ '')'')"

definition circular_error :: "Import \<Rightarrow> string \<Rightarrow> exn" where
  "circular_error import_ref import_path =
     BusyImportError (''Circular import detected: '' @ quoted (imp_path import_ref)
                        @ '' (resolved to '' @ import_path @ '')'')"

definition import_handler :: "Import \<Rightarrow> exn \<Rightarrow> exn" where
  \<comment> \<open>\<open>except (BusyParseError, BusyValidationError) as e\<close>; any other exception goes on\<close>
  "import_handler import_ref e =
     (case e of
        BusyParseError m \<Rightarrow>
          BusyImportError (''Failed to parse imported document '' @ quoted (imp_path import_ref)
                             @ '': '' @ m)
      | BusyValidationError m \<Rightarrow>
          BusyImportError (''Failed to parse imported document '' @ quoted (imp_path import_ref)
                             @ '': '' @ m)
      | _ \<Rightarrow> e)"

definition load_import :: "ext \<Rightarrow> fs \<Rightarrow> Import \<Rightarrow> string \<Rightarrow> exn + document" where
  \<comment> \<open>the try block up to the recursive call: read, parse, check the anchor\<close>
  "load_import x f import_ref import_path =
     (case fs_read_text f import_path of
        Inl e \<Rightarrow> Inl e
      | Inr imported_content \<Rightarrow>
          (case parse_document x imported_content of
             Inl e \<Rightarrow> Inl e
           | Inr imported_doc \<Rightarrow>
               (case imp_anchor import_ref of
                  None \<Rightarrow> Inr imported_doc
                | Some a \<Rightarrow>
                    if a = [] \<or> anchor_found imported_doc a then Inr imported_doc
                    else Inl (BusyImportError
                               (''Anchor '' @ quoted (''#'' @ a) @ '' not found in ''
                                  @ quoted (imp_path import_ref))))))"

text \<open>
  The loop of \<open>resolve_imports\<close> over the imports still to do, with the dictionary built so
  far and the set \<open>_visited\<close>, which the calls share: the result goes with the set as the
  call leaves it. The recursion has no bound in the source; here it has fuel, and the
  result is None when the fuel runs out.
\<close>

fun resolve_list ::
  "nat \<Rightarrow> ext \<Rightarrow> fs \<Rightarrow> Import list \<Rightarrow> string \<Rightarrow> (string \<times> document) list \<Rightarrow> string set
     \<Rightarrow> ((exn + (string \<times> document) list) \<times> string set) option"
where
  "resolve_list fuel x f [] base_path resolved visited = Some (Inr resolved, visited)"
| "resolve_list fuel x f (import_ref # rest) base_path resolved visited =
     (if \<not> fs_exists f (fs_join f base_path (imp_path import_ref))
      then Some (Inl (not_found_error import_ref (fs_join f base_path (imp_path import_ref))),
                 visited)
      else if fs_resolve f (fs_join f base_path (imp_path import_ref)) \<in> visited
      then Some (Inl (circular_error import_ref (fs_join f base_path (imp_path import_ref))),
                 visited)
      else
        (case load_import x f import_ref (fs_join f base_path (imp_path import_ref)) of
           Inl e \<Rightarrow>
             Some (Inl (import_handler import_ref e),
                   insert (fs_resolve f (fs_join f base_path (imp_path import_ref))) visited
                     - {fs_resolve f (fs_join f base_path (imp_path import_ref))})
         | Inr imported_doc \<Rightarrow>
             (case fuel of
                0 \<Rightarrow> None
              | Suc n \<Rightarrow>
                  (case resolve_list n x f (doc_imports (document_base imported_doc))
                          (fs_parent f (fs_join f base_path (imp_path import_ref))) []
                          (insert (fs_resolve f (fs_join f base_path (imp_path import_ref)))
                             visited) of
                     None \<Rightarrow> None
                   | Some (Inl e, visited') \<Rightarrow>
                       Some (Inl (import_handler import_ref e),
                             visited'
                               - {fs_resolve f (fs_join f base_path (imp_path import_ref))})
                   | Some (Inr nested_resolved, visited') \<Rightarrow>
                       resolve_list (Suc n) x f rest base_path
                         (dict_update
                            (dict_set resolved (imp_concept_name import_ref) imported_doc)
                            nested_resolved)
                         (visited'
                            - {fs_resolve f (fs_join f base_path (imp_path import_ref))})))))"

definition resolve_imports ::
  "nat \<Rightarrow> ext \<Rightarrow> fs \<Rightarrow> document \<Rightarrow> string \<Rightarrow> (exn + (string \<times> document) list) option"
where
  \<comment> \<open>\<open>resolve_imports(document, base_path)\<close>, the set \<open>_visited\<close> empty at first\<close>
  "resolve_imports fuel x f document base_path =
     map_option fst
       (resolve_list fuel x f (doc_imports (document_base document)) base_path [] {})"

section \<open>Example documents\<close>

text \<open>
  The inputs of the examples below. The loader of the examples knows the frontmatter texts
  of these documents and does on each what \<open>yaml.safe_load\<close> does: it returns the value
  (the \<open>Yes\<close> of YAML is the boolean \<open>True\<close>), raises the \<open>ValueError\<close> of the date whose
  month is 13, and raises a \<open>yaml.YAMLError\<close> on any other text. The text of a pydantic
  error is its first line.
\<close>

definition yaml_tool :: string where
  "yaml_tool = ''Name: Mailer\<newline>Type: [Tool]\<newline>Description: Sends mail''"

definition yaml_tool_triggers :: string where
  "yaml_tool_triggers =
     ''Name: Mailer\<newline>Type: [Tool]\<newline>Description: Sends mail\<newline>Triggers:\<newline>  - event_type: mail.received''"

definition yaml_operation :: string where
  "yaml_operation = ''Name: Review\<newline>Type: [Operation]\<newline>Description: Reviews leads''"

definition yaml_document_triggers :: string where
  "yaml_document_triggers =
     ''Name: Notes\<newline>Type: [Document]\<newline>Description: Plain notes\<newline>Triggers:\<newline>  - event_type: mail.received''"

definition yaml_empty_type :: string where
  "yaml_empty_type = ''Name: Notes\<newline>Type: []\<newline>Description: Plain notes''"

definition yaml_quoted_type :: string where
  "yaml_quoted_type = ''Name: Notes\<newline>Type: '[Note]'\<newline>Description: Plain notes''"

definition yaml_yes_type :: string where
  "yaml_yes_type = ''Name: Notes\<newline>Type: [Yes]\<newline>Description: Plain notes''"

definition yaml_bad_date :: string where
  "yaml_bad_date = ''Name: Notes\<newline>Type: [Document]\<newline>Description: 2001-13-45''"

definition yaml_bad_text :: string where
  "yaml_bad_text = ''Name: [Notes''"

definition demo_load :: "string \<Rightarrow> exn + yaml" where
  "demo_load s =
     (if s = yaml_tool
      then Inr (YDict [(YStr ''Name'', YStr ''Mailer''), (YStr ''Type'', YList [YStr ''Tool'']),
                       (YStr ''Description'', YStr ''Sends mail'')])
      else if s = yaml_tool_triggers
      then Inr (YDict [(YStr ''Name'', YStr ''Mailer''), (YStr ''Type'', YList [YStr ''Tool'']),
                       (YStr ''Description'', YStr ''Sends mail''),
                       (YStr ''Triggers'',
                        YList [YDict [(YStr ''event_type'', YStr ''mail.received'')]])])
      else if s = yaml_operation
      then Inr (YDict [(YStr ''Name'', YStr ''Review''), (YStr ''Type'', YList [YStr ''Operation'']),
                       (YStr ''Description'', YStr ''Reviews leads'')])
      else if s = yaml_document_triggers
      then Inr (YDict [(YStr ''Name'', YStr ''Notes''), (YStr ''Type'', YList [YStr ''Document'']),
                       (YStr ''Description'', YStr ''Plain notes''),
                       (YStr ''Triggers'',
                        YList [YDict [(YStr ''event_type'', YStr ''mail.received'')]])])
      else if s = yaml_empty_type
      then Inr (YDict [(YStr ''Name'', YStr ''Notes''), (YStr ''Type'', YList []),
                       (YStr ''Description'', YStr ''Plain notes'')])
      else if s = yaml_quoted_type
      then Inr (YDict [(YStr ''Name'', YStr ''Notes''), (YStr ''Type'', YStr ''[Note]''),
                       (YStr ''Description'', YStr ''Plain notes'')])
      else if s = yaml_yes_type
      then Inr (YDict [(YStr ''Name'', YStr ''Notes''), (YStr ''Type'', YList [YBool True]),
                       (YStr ''Description'', YStr ''Plain notes'')])
      else if s = yaml_bad_date
      then Inl (ValueError ''month must be in 1..12'')
      else Inl (YAMLError ''could not load''))"

definition demo_ext :: ext where
  "demo_ext =
     \<lparr>safe_load = demo_load,
      pydantic_text =
        (\<lambda>model errs. str_nat (length errs) @ '' validation error for '' @ model),
      coerce_bool = (\<lambda>y. None),
      max_str_digits = 4300\<rparr>"

definition frontmatter :: "string \<Rightarrow> string" where
  \<comment> \<open>a frontmatter text between its fences\<close>
  "frontmatter y = ''---\<newline>'' @ y @ ''\<newline>---\<newline>''"

definition doc_tools_heading :: string where
  \<comment> \<open>a Tool document that declares its tool under \<open># Tools\<close>\<close>
  "doc_tools_heading = frontmatter yaml_tool @ ''# Tools\<newline>## send\<newline>Sends a mail.\<newline>''"

definition doc_tool_operations_heading :: string where
  \<comment> \<open>the same tool under \<open># Operations\<close>, with a Triggers section\<close>
  "doc_tool_operations_heading =
     frontmatter yaml_tool_triggers
       @ ''# Triggers\<newline>- Set alarm for 6am each morning to run send\<newline># Operations\<newline>## send\<newline>Sends a mail.\<newline>''"

definition doc_zero_step :: string where
  \<comment> \<open>an operation with a step numbered 0, which the model \<open>Step\<close> rejects\<close>
  "doc_zero_step =
     frontmatter yaml_operation @ ''# Operations\<newline>## Check\<newline>### Steps\<newline>0. Begin\<newline>''"

definition doc_notes_triggers :: string where
  \<comment> \<open>a document of type \<open>[Document]\<close> with a trigger in its frontmatter\<close>
  "doc_notes_triggers = frontmatter yaml_document_triggers @ ''Some notes.\<newline>''"

definition doc_fenced_import :: string where
  \<comment> \<open>a document whose one reference link is inside a code fence\<close>
  "doc_fenced_import =
     frontmatter yaml_operation @ ''```\<newline>[Lib]: ./lib.md\<newline>```\<newline>''"

definition doc_overlapped_import :: string where
  \<comment> \<open>a document with a reference link whose path is the beginning of another\<close>
  "doc_overlapped_import = frontmatter yaml_operation @ ''[p]: [q]: r\<newline>''"

definition doc_bad_date :: string where
  \<comment> \<open>a document whose frontmatter has a date the loader cannot build\<close>
  "doc_bad_date = frontmatter yaml_bad_date @ ''Some notes.\<newline>''"

definition doc_bad_text :: string where
  \<comment> \<open>a document whose frontmatter is not YAML\<close>
  "doc_bad_text = frontmatter yaml_bad_text @ ''Some notes.\<newline>''"

definition doc_bad_trigger :: string where
  \<comment> \<open>an operation document with a trigger bullet of neither form\<close>
  "doc_bad_trigger = frontmatter yaml_operation @ ''# Triggers\<newline>- at noon\<newline>''"

section \<open>Kinds of exceptions\<close>

fun is_validation_error :: "exn \<Rightarrow> bool" where
  \<comment> \<open>the repository's \<open>BusyValidationError\<close>\<close>
  "is_validation_error (BusyValidationError m) = True"
| "is_validation_error _ = False"

fun is_import_error :: "exn \<Rightarrow> bool" where
  "is_import_error (BusyImportError m) = True"
| "is_import_error _ = False"

fun is_parse_error :: "exn \<Rightarrow> bool" where
  "is_parse_error (BusyParseError m) = True"
| "is_parse_error _ = False"

fun is_pydantic_error :: "exn \<Rightarrow> bool" where
  "is_pydantic_error (ValidationError m) = True"
| "is_pydantic_error _ = False"

definition surfaces_as :: "exn \<Rightarrow> exn" where
  \<comment> \<open>Following the claim's words, to be compared with the except clauses of
      \<open>parse_document\<close>: a validation error or an import error surfaces as it is, any
      other exception as a parse error that carries the message of its cause.\<close>
  "surfaces_as e =
     (if is_validation_error e \<or> is_import_error e then e
      else BusyParseError (''Failed to parse BUSY document: '' @ exn_str e))"

definition notes_document :: document where
  "notes_document =
     Plain \<lparr>doc_metadata = \<lparr>md_name = ''Notes'', md_type = ''[Document]'',
                              md_description = ''Plain notes'', md_provider = None\<rparr>,
            doc_imports = [], doc_definitions = [], doc_setup = None, doc_operations = [],
            doc_triggers =
              [\<lparr>tr_raw_text = ''Frontmatter trigger: mail.received'',
                tr_trigger_type = ''event'', tr_schedule = None,
                tr_event_type = Some ''mail.received'', tr_filter = None,
                tr_operation = ''Notes'', tr_queue_when_paused = True\<rparr>]\<rparr>"

definition projr_dict :: "exn + yaml \<Rightarrow> (yaml \<times> yaml) list" where
  \<comment> \<open>the dictionary of a loaded frontmatter\<close>
  "projr_dict r = (case r of Inr (YDict d) \<Rightarrow> d | _ \<Rightarrow> [])"

section \<open>The time phrase, after the specification\<close>








section \<open>Reading a match off a text\<close>

text \<open>
  What the proofs below use to follow the matcher on a text that is only partly known.
\<close>

definition adv :: "mstate \<Rightarrow> string \<Rightarrow> mstate" where
  \<comment> \<open>the state after the matcher has consumed \<open>w\<close>, a prefix of the rest\<close>
  "adv st w =
     MState (st_pos st + length w) (drop (length w) (st_rest st))
       (if w = [] then st_prev st else Some (last w)) (st_groups st)"

definition set_group :: "nat \<Rightarrow> nat \<Rightarrow> mstate \<Rightarrow> mstate" where
  \<comment> \<open>what \<open>Group n\<close> does to a state in which its body ends, begun at offset \<open>i\<close>\<close>
  "set_group n i st =
     MState (st_pos st) (st_rest st) (st_prev st) ((n, i, st_pos st) # st_groups st)"

definition starts :: "rx \<Rightarrow> mstate \<Rightarrow> mstate list \<Rightarrow> bool" where
  \<comment> \<open>the ends of the matches of \<open>r\<close> from \<open>st\<close> begin with \<open>xs\<close>\<close>
  "starts r st xs = (\<exists>t. ms r st = xs @ t)"

fun gnums :: "rx \<Rightarrow> nat set" where
  \<comment> \<open>the numbers of the groups of a pattern\<close>
  "gnums (Chr p) = {}"
| "gnums Eps = {}"
| "gnums (Seq a b) = gnums a \<union> gnums b"
| "gnums (Alt a b) = gnums a \<union> gnums b"
| "gnums (Star a) = gnums a"
| "gnums (LStar a) = gnums a"
| "gnums (Group n a) = insert n (gnums a)"
| "gnums (Look a) = {}"
| "gnums (NLook a) = {}"
| "gnums Bos = {}"
| "gnums Bol = {}"
| "gnums Eos = {}"
| "gnums EosNl = {}"

definition reaches :: "mstate \<Rightarrow> mstate \<Rightarrow> bool" where
  \<comment> \<open>\<open>st'\<close> is \<open>st\<close> after some text has been consumed\<close>
  "reaches st st' =
     (\<exists>w. st_rest st = w @ st_rest st' \<and> st_pos st' = st_pos st + length w)"

definition import_of :: "string \<Rightarrow> rmatch \<Rightarrow> Import" where
  \<comment> \<open>the import \<open>_parse_imports\<close> makes of a match\<close>
  "import_of content m =
     \<lparr>imp_concept_name = group_str content m 1, imp_path = group_str content m 2,
      imp_anchor = (case group content m 3 of None \<Rightarrow> None
                    | Some a \<Rightarrow> if a = [] then None else Some a)\<rparr>"

definition event_tail :: rx where
  \<comment> \<open>the end of the event pattern, \<open>,\s*run\s+(\w+)\<close>\<close>
  "event_tail = Seq (Lit CHR '','') (Seq (Star ws) (Seq (cis ''run'') (Seq (Plus ws) (Group 3 (Plus wordc)))))"

definition from_branch :: rx where
  \<comment> \<open>the body of its optional group, \<open>\s+from\s+(.+?)\<close>\<close>
  "from_branch = Seq (Plus ws) (Seq (cis ''from'') (Seq (Plus ws) (Group 2 (LPlus dot))))"

definition prev_at :: "string \<Rightarrow> nat \<Rightarrow> char option" where
  \<comment> \<open>the character before offset \<open>i\<close> of \<open>s\<close>\<close>
  "prev_at s i = (if i = 0 then None else Some (s ! (i - 1)))"

definition state_at :: "string \<Rightarrow> nat \<Rightarrow> mstate" where
  \<comment> \<open>the state in which the matcher tries a pattern at offset \<open>i\<close> of \<open>s\<close>\<close>
  "state_at s i = MState i (drop i s) (prev_at s i) []"

definition occurs_at :: "rx \<Rightarrow> string \<Rightarrow> nat \<Rightarrow> bool" where
  \<comment> \<open>the pattern matches some text of \<open>s\<close> that begins at offset \<open>i\<close>\<close>
  "occurs_at r s i = (i \<le> length s \<and> ms r (state_at s i) \<noteq> [])"

definition match_at :: "rx \<Rightarrow> string \<Rightarrow> nat \<Rightarrow> rmatch" where
  \<comment> \<open>the match the matcher reports when it tries the pattern at offset \<open>i\<close>\<close>
  "match_at r s i = RMatch i (hd (ms r (state_at s i)))"

definition inside :: "string \<Rightarrow> mstate \<Rightarrow> bool" where
  \<comment> \<open>a state of the matcher on the text \<open>s\<close>\<close>
  "inside s st =
     (st_pos st \<le> length s \<and> st_rest st = drop (st_pos st) s
      \<and> st_prev st = prev_at s (st_pos st))"

definition consuming :: "rx \<Rightarrow> bool" where
  \<comment> \<open>every match of the pattern consumes at least one character\<close>
  "consuming r = (\<forall>st st'. st' \<in> set (ms r st) \<longrightarrow> st_pos st < st_pos st')"

definition holds :: "string \<Rightarrow> mstate \<Rightarrow> bool" where
  \<comment> \<open>the state is at its offset in the text\<close>
  "holds whole st = (st_rest st = drop (st_pos st) whole)"





section \<open>Properties\<close>

subsection \<open>Loops that may raise\<close>

lemma mapM_Inl:
  "mapM f xs = Inl e \<Longrightarrow> \<exists>y \<in> set xs. f y = Inl e"
  by (induction xs arbitrary: e) (auto split: sum.splits)

lemma mapM_Inr:
  "mapM f xs = Inr vs \<Longrightarrow> list_all2 (\<lambda>y v. f y = Inr v) xs vs"
  by (induction xs arbitrary: vs) (auto split: sum.splits)

lemma validated_Inl:
  "validated x model errs v = Inl e \<Longrightarrow> \<exists>t. e = ValidationError t"
  by (auto simp: validated_def split: if_splits)

lemma validated_Inr:
  "validated x model errs v = Inr w \<Longrightarrow> w = v \<and> errs = []"
  by (auto simp: validated_def split: if_splits)

subsection \<open>The document assembler\<close>

lemma parse_document_metadata:
  assumes "extract_metadata x content = Inr (md, body, data)"
    and "parse_document x content = Inr d"
  shows "doc_metadata (document_base d) = md"
  using assms
  by (auto simp: parse_document_def parse_document_try_def parse_sections_def tool_document_def
                 plain_document_def document_base_def
           split: sum.splits if_splits)

lemma parse_document_tool_branch:
  assumes "extract_metadata x content = Inr (md, body, data)"
    and "md_type md = ''[Tool]''"
    and "parse_imports x body = Inr imps"
    and "parse_local_definitions x body = Inr defs"
    and "parse_operations x body = Inr ops"
  shows "parse_document_try x content
           = tool_document x md imps defs (parse_setup body) ops body"
  using assms by (simp add: parse_document_try_def parse_sections_def)

lemma parse_document_plain_branch:
  assumes "extract_metadata x content = Inr (md, body, data)"
    and "md_type md \<noteq> ''[Tool]''"
    and "parse_imports x body = Inr imps"
    and "parse_local_definitions x body = Inr defs"
    and "parse_operations x body = Inr ops"
  shows "parse_document_try x content
           = plain_document x md imps defs (parse_setup body) ops data body"
  using assms by (simp add: parse_document_try_def parse_sections_def)

text \<open>
  C7. The sub-parsers run in the try block of \<open>parse_document\<close> one after the other: the
  frontmatter, the imports, the local definitions, the operations, then the tools of a
  Tool document or else the triggers of the frontmatter and of the markdown section.
  Whichever of them raises first, with an exception \<open>e\<close>, \<open>parse_document\<close> raises what
  the claim says: \<open>e\<close> itself when it is a validation error or an import error, and
  otherwise a parse error whose message is \<open>Failed to parse BUSY document: \<close> followed by
  the message of \<open>e\<close>. A parse error of \<open>parse_document\<close> always comes about in this
  way, from a cause raised in the try block that is neither a validation error nor an
  import error, with one prefix before the message of the cause.
\<close>

theorem parse_document_propagates:
  "(extract_metadata x content = Inl e \<longrightarrow> parse_document x content = Inl (surfaces_as e))
   \<and> (extract_metadata x content = Inr (md, body, data) \<longrightarrow>
        (parse_imports x body = Inl e \<longrightarrow> parse_document x content = Inl (surfaces_as e))
      \<and> (parse_imports x body = Inr imps \<longrightarrow>
          (parse_local_definitions x body = Inl e \<longrightarrow>
             parse_document x content = Inl (surfaces_as e))
        \<and> (parse_local_definitions x body = Inr defs \<longrightarrow>
            (parse_operations x body = Inl e \<longrightarrow>
               parse_document x content = Inl (surfaces_as e))
          \<and> (parse_operations x body = Inr ops \<longrightarrow>
              (md_type md = ''[Tool]'' \<and> parse_tools_section x body = Inl e \<longrightarrow>
                 parse_document x content = Inl (surfaces_as e))
            \<and> (md_type md \<noteq> ''[Tool]'' \<and> parse_frontmatter_triggers x data md = Inl e \<longrightarrow>
                 parse_document x content = Inl (surfaces_as e))
            \<and> (md_type md \<noteq> ''[Tool]'' \<and> parse_frontmatter_triggers x data md = Inr fm
                 \<and> parse_triggers x body = Inl e \<longrightarrow>
                 parse_document x content = Inl (surfaces_as e))))))
   \<and> (parse_document x content = Inl (BusyParseError msg) \<longrightarrow>
        (\<exists>c. parse_document_try x content = Inl c \<and> \<not> is_validation_error c
             \<and> \<not> is_import_error c
             \<and> msg = ''Failed to parse BUSY document: '' @ exn_str c))"
proof -
  have handler: "document_handler c = surfaces_as c" for c
    by (cases c) (simp_all add: document_handler_def surfaces_as_def parse_error_prefix_def)
  have raised: "parse_document x content = Inl (surfaces_as c)"
    if "parse_document_try x content = Inl c" for c
    using that by (simp add: parse_document_def handler)
  have sections: "parse_document_try x content = parse_sections x md body data"
    if "extract_metadata x content = Inr (md, body, data)"
    using that by (simp add: parse_document_try_def)
  have r_first: "parse_document x content = Inl (surfaces_as e)"
    if "extract_metadata x content = Inl e"
    using that by (intro raised) (simp add: parse_document_try_def)
  have r_imports: "parse_document x content = Inl (surfaces_as e)"
    if "extract_metadata x content = Inr (md, body, data)" "parse_imports x body = Inl e"
    using that by (intro raised) (simp add: sections parse_sections_def)
  have r_definitions: "parse_document x content = Inl (surfaces_as e)"
    if "extract_metadata x content = Inr (md, body, data)" "parse_imports x body = Inr imps"
      "parse_local_definitions x body = Inl e"
    using that by (intro raised) (simp add: sections parse_sections_def)
  have r_operations: "parse_document x content = Inl (surfaces_as e)"
    if "extract_metadata x content = Inr (md, body, data)" "parse_imports x body = Inr imps"
      "parse_local_definitions x body = Inr defs" "parse_operations x body = Inl e"
    using that by (intro raised) (simp add: sections parse_sections_def)
  have r_tools: "parse_document x content = Inl (surfaces_as e)"
    if "extract_metadata x content = Inr (md, body, data)" "parse_imports x body = Inr imps"
      "parse_local_definitions x body = Inr defs" "parse_operations x body = Inr ops"
      "md_type md = ''[Tool]''" "parse_tools_section x body = Inl e"
    using that by (intro raised) (simp add: sections parse_sections_def tool_document_def)
  have r_frontmatter: "parse_document x content = Inl (surfaces_as e)"
    if "extract_metadata x content = Inr (md, body, data)" "parse_imports x body = Inr imps"
      "parse_local_definitions x body = Inr defs" "parse_operations x body = Inr ops"
      "md_type md \<noteq> ''[Tool]''" "parse_frontmatter_triggers x data md = Inl e"
    using that by (intro raised) (simp add: sections parse_sections_def plain_document_def)
  have r_markdown: "parse_document x content = Inl (surfaces_as e)"
    if "extract_metadata x content = Inr (md, body, data)" "parse_imports x body = Inr imps"
      "parse_local_definitions x body = Inr defs" "parse_operations x body = Inr ops"
      "md_type md \<noteq> ''[Tool]''" "parse_frontmatter_triggers x data md = Inr fm"
      "parse_triggers x body = Inl e"
    using that by (intro raised) (simp add: sections parse_sections_def plain_document_def)
  have cause: "\<exists>c. parse_document_try x content = Inl c \<and> \<not> is_validation_error c
                 \<and> \<not> is_import_error c \<and> msg = ''Failed to parse BUSY document: '' @ exn_str c"
    if p: "parse_document x content = Inl (BusyParseError msg)"
  proof -
    from p obtain c where c: "parse_document_try x content = Inl c"
      and h: "surfaces_as c = BusyParseError msg"
      by (auto simp: parse_document_def handler split: sum.splits)
    from h have "\<not> is_validation_error c \<and> \<not> is_import_error c
        \<and> msg = ''Failed to parse BUSY document: '' @ exn_str c"
      by (cases c) (simp_all add: surfaces_as_def)
    with c show ?thesis by blast
  qed
  from r_first r_imports r_definitions r_operations r_tools r_frontmatter r_markdown cause
  show ?thesis by blast
qed

theorem parse_document_propagates_witness:
  "parse_document demo_ext doc_bad_date
     = Inl (BusyParseError ''Failed to parse BUSY document: month must be in 1..12'')
   \<and> parse_document demo_ext doc_bad_text
     = Inl (BusyValidationError ''Invalid YAML in frontmatter: could not load'')
   \<and> parse_document demo_ext doc_zero_step
     = Inl (BusyParseError ''Failed to parse BUSY document: 1 validation error for Step'')
   \<and> parse_document demo_ext doc_bad_trigger
     = Inl (BusyValidationError
             (''Invalid trigger declaration '' @ quoted ''at noon'' @ '': '' @ unrecognized))"
proof -
  define md where "md = \<lparr>md_name = ''Review'', md_type = ''[Operation]'',
    md_description = ''Reviews leads'', md_provider = None\<rparr>"
  define data where "data = [(YStr ''Name'', YStr ''Review''),
    (YStr ''Type'', YList [YStr ''Operation'']), (YStr ''Description'', YStr ''Reviews leads'')]"
  define body1 where "body1 = ''# Operations\<newline>## Check\<newline>### Steps\<newline>0. Begin\<newline>''"
  define body2 where "body2 = ''# Triggers\<newline>- at noon\<newline>''"
  define date_error where "date_error = ValueError ''month must be in 1..12''"
  define yaml_error where
    "yaml_error = BusyValidationError ''Invalid YAML in frontmatter: could not load''"
  define step_error where "step_error = ValidationError ''1 validation error for Step''"
  define trigger_error where "trigger_error = BusyValidationError
    (''Invalid trigger declaration '' @ quoted ''at noon'' @ '': '' @ unrecognized)"
  have a: "extract_metadata demo_ext doc_bad_date = Inl date_error"
    unfolding date_error_def by code_simp
  have b: "extract_metadata demo_ext doc_bad_text = Inl yaml_error"
    unfolding yaml_error_def by code_simp
  have m1: "extract_metadata demo_ext doc_zero_step = Inr (md, body1, data)"
    unfolding md_def body1_def data_def by code_simp
  have i1: "parse_imports demo_ext body1 = Inr []" unfolding body1_def by code_simp
  have d1: "parse_local_definitions demo_ext body1 = Inr []" unfolding body1_def by code_simp
  have o1: "parse_operations demo_ext body1 = Inl step_error"
    unfolding body1_def step_error_def by code_simp
  have m2: "extract_metadata demo_ext doc_bad_trigger = Inr (md, body2, data)"
    unfolding md_def body2_def data_def by code_simp
  have i2: "parse_imports demo_ext body2 = Inr []" unfolding body2_def by code_simp
  have d2: "parse_local_definitions demo_ext body2 = Inr []" unfolding body2_def by code_simp
  have o2: "parse_operations demo_ext body2 = Inr []" unfolding body2_def by code_simp
  have f2: "parse_frontmatter_triggers demo_ext data md = Inr []"
    unfolding data_def md_def by code_simp
  have t2: "parse_triggers demo_ext body2 = Inl trigger_error"
    unfolding body2_def trigger_error_def by code_simp
  have ty: "md_type md \<noteq> ''[Tool]''" by (simp add: md_def)
  from a parse_document_propagates [where x = demo_ext and content = doc_bad_date
      and e = date_error and md = md and body = body1 and data = data and imps = "[]"
      and defs = "[]" and ops = "[]" and fm = "[]" and msg = "[]"]
  have 1: "parse_document demo_ext doc_bad_date = Inl (surfaces_as date_error)"
    by blast
  from b parse_document_propagates [where x = demo_ext and content = doc_bad_text
      and e = yaml_error and md = md and body = body1 and data = data and imps = "[]"
      and defs = "[]" and ops = "[]" and fm = "[]" and msg = "[]"]
  have 2: "parse_document demo_ext doc_bad_text = Inl (surfaces_as yaml_error)"
    by blast
  from m1 i1 d1 o1 parse_document_propagates [where x = demo_ext and content = doc_zero_step
      and e = step_error and md = md and body = body1 and data = data and imps = "[]"
      and defs = "[]" and ops = "[]" and fm = "[]" and msg = "[]"]
  have 3: "parse_document demo_ext doc_zero_step = Inl (surfaces_as step_error)"
    by blast
  from m2 i2 d2 o2 f2 t2 ty
    parse_document_propagates [where x = demo_ext and content = doc_bad_trigger
      and e = trigger_error and md = md and body = body2 and data = data and imps = "[]"
      and defs = "[]" and ops = "[]" and fm = "[]" and msg = "[]"]
  have 4: "parse_document demo_ext doc_bad_trigger = Inl (surfaces_as trigger_error)"
    by blast
  show ?thesis
    unfolding 1 2 3 4
    by (simp add: surfaces_as_def date_error_def yaml_error_def step_error_def
          trigger_error_def)
qed

text \<open>
  C6. A document whose type is the Tool tag \<open>[Tool]\<close>: when the tools parser finds no
  tool, \<open>parse_document\<close> raises the validation error \<open>no_tools\<close>; when it finds some, the
  result is a \<open>ToolDocument\<close> with these tools and an empty list of triggers. Neither
  the frontmatter's data nor a Triggers section of the body has any part in it: a
  result of \<open>parse_document\<close> on such a document is always a \<open>ToolDocument\<close> with at least
  one tool and no trigger.
\<close>

theorem tool_document_tools_and_triggers:
  assumes "extract_metadata x content = Inr (md, body, data)"
    and "md_type md = ''[Tool]''"
  shows "(\<forall>d. parse_document x content = Inr d \<longrightarrow>
            (\<exists>t. d = ToolDoc t \<and> doc_tools t \<noteq> [] \<and> doc_triggers t = [] \<and> doc_metadata t = md))
         \<and> (\<forall>imps defs ops.
               parse_imports x body = Inr imps \<and> parse_local_definitions x body = Inr defs
               \<and> parse_operations x body = Inr ops \<longrightarrow>
               (parse_tools_section x body = Inr [] \<longrightarrow>
                  parse_document x content
                    = Inl (BusyValidationError
                        ''Tool document must contain at least one tool definition in Tools section''))
               \<and> (\<forall>tools. parse_tools_section x body = Inr tools \<and> tools \<noteq> [] \<longrightarrow>
                     parse_document x content
                       = Inr (ToolDoc \<lparr>doc_metadata = md, doc_imports = imps,
                                doc_definitions = defs, doc_setup = parse_setup body,
                                doc_operations = ops, doc_triggers = [], doc_tools = tools\<rparr>)))"
proof -
  have success: "\<exists>t. d = ToolDoc t \<and> doc_tools t \<noteq> [] \<and> doc_triggers t = [] \<and> doc_metadata t = md"
    if "parse_document x content = Inr d" for d
    using that assms
    by (auto simp: parse_document_def parse_document_try_def parse_sections_def tool_document_def
             split: sum.splits if_splits)
  have branch: "parse_document_try x content
                  = tool_document x md imps defs (parse_setup body) ops body"
    if "parse_imports x body = Inr imps" "parse_local_definitions x body = Inr defs"
       "parse_operations x body = Inr ops" for imps defs ops
    using parse_document_tool_branch [OF assms that] .
  have none: "parse_document x content = Inl (BusyValidationError no_tools)"
    if "parse_imports x body = Inr imps" "parse_local_definitions x body = Inr defs"
       "parse_operations x body = Inr ops" "parse_tools_section x body = Inr []"
    for imps defs ops
    using branch [OF that(1-3)] that(4)
    by (simp add: parse_document_def tool_document_def document_handler_def)
  have some: "parse_document x content
                = Inr (ToolDoc \<lparr>doc_metadata = md, doc_imports = imps, doc_definitions = defs,
                         doc_setup = parse_setup body, doc_operations = ops, doc_triggers = [],
                         doc_tools = tools\<rparr>)"
    if "parse_imports x body = Inr imps" "parse_local_definitions x body = Inr defs"
       "parse_operations x body = Inr ops" "parse_tools_section x body = Inr tools"
       "tools \<noteq> []"
    for imps defs ops tools
    using branch [OF that(1-3)] that(4,5)
    by (simp add: parse_document_def tool_document_def)
  from success none some show ?thesis
    unfolding no_tools_def by blast
qed

theorem tool_document_tools_and_triggers_witness:
  "parse_document demo_ext doc_tools_heading
     = Inl (BusyValidationError
         ''Tool document must contain at least one tool definition in Tools section'')
   \<and> (\<exists>t. parse_document demo_ext doc_tool_operations_heading = Inr (ToolDoc t)
          \<and> doc_tools t \<noteq> [] \<and> doc_triggers t = [])
   \<and> py_get (snd (snd (projr (extract_metadata demo_ext doc_tool_operations_heading)))) ''Triggers''
       = YList [YDict [(YStr ''event_type'', YStr ''mail.received'')]]
   \<and> parse_triggers demo_ext
         (fst (snd (projr (extract_metadata demo_ext doc_tool_operations_heading))))
       = Inr [\<lparr>tr_raw_text = ''Set alarm for 6am each morning to run send'',
               tr_trigger_type = ''alarm'', tr_schedule = Some ''0 6 * * *'',
               tr_event_type = None, tr_filter = None, tr_operation = ''send'',
               tr_queue_when_paused = True\<rparr>]"
proof -
  define md where "md = \<lparr>md_name = ''Mailer'', md_type = ''[Tool]'',
    md_description = ''Sends mail'', md_provider = None\<rparr>"
  define body1 where "body1 = ''# Tools\<newline>## send\<newline>Sends a mail.\<newline>''"
  define body2 where "body2 =
    ''# Triggers\<newline>- Set alarm for 6am each morning to run send\<newline># Operations\<newline>## send\<newline>Sends a mail.\<newline>''"
  define data1 where "data1 = [(YStr ''Name'', YStr ''Mailer''), (YStr ''Type'', YList [YStr ''Tool'']),
    (YStr ''Description'', YStr ''Sends mail'')]"
  define data2 where "data2 = data1 @ [(YStr ''Triggers'',
    YList [YDict [(YStr ''event_type'', YStr ''mail.received'')]])]"
  have m1: "extract_metadata demo_ext doc_tools_heading = Inr (md, body1, data1)"
    unfolding md_def body1_def data1_def by code_simp
  have m2: "extract_metadata demo_ext doc_tool_operations_heading = Inr (md, body2, data2)"
    unfolding md_def body2_def data2_def data1_def by code_simp
  have ty: "md_type md = ''[Tool]''"
    by (simp add: md_def)
  have i1: "parse_imports demo_ext body1 = Inr []" unfolding body1_def by code_simp
  have d1: "parse_local_definitions demo_ext body1 = Inr []" unfolding body1_def by code_simp
  have o1: "parse_operations demo_ext body1 = Inr []" unfolding body1_def by code_simp
  have t1: "parse_tools_section demo_ext body1 = Inr []" unfolding body1_def by code_simp
  have r2: "parse_document demo_ext doc_tool_operations_heading
      = Inr (ToolDoc \<lparr>doc_metadata = md, doc_imports = [], doc_definitions = [],
               doc_setup = None,
               doc_operations = [\<lparr>op_name = ''send'', op_inputs = [], op_outputs = [],
                                  op_steps = [], op_checklist = None\<rparr>],
               doc_triggers = [],
               doc_tools = [\<lparr>tool_name = ''send'', tool_description = ''Sends a mail.'',
                             tool_inputs = [], tool_outputs = [], tool_examples = None,
                             tool_providers = None\<rparr>]\<rparr>)"
    unfolding md_def by code_simp
  from tool_document_tools_and_triggers [OF m1 ty] i1 d1 o1 t1
  have a: "parse_document demo_ext doc_tools_heading
     = Inl (BusyValidationError
         ''Tool document must contain at least one tool definition in Tools section'')"
    by blast
  from r2 tool_document_tools_and_triggers [OF m2 ty]
  have b: "\<exists>t. parse_document demo_ext doc_tool_operations_heading = Inr (ToolDoc t)
          \<and> doc_tools t \<noteq> [] \<and> doc_triggers t = []"
    by auto
  have c: "py_get data2 ''Triggers'' = YList [YDict [(YStr ''event_type'', YStr ''mail.received'')]]"
    unfolding data2_def data1_def by code_simp
  have e: "parse_triggers demo_ext body2
       = Inr [\<lparr>tr_raw_text = ''Set alarm for 6am each morning to run send'',
               tr_trigger_type = ''alarm'', tr_schedule = Some ''0 6 * * *'',
               tr_event_type = None, tr_filter = None, tr_operation = ''send'',
               tr_queue_when_paused = True\<rparr>]"
    unfolding body2_def by code_simp
  from a b c e m2 show ?thesis by simp
qed

subsection \<open>Triggers of the frontmatter\<close>

lemma frontmatter_trigger_operation:
  "frontmatter_trigger x md t = Inr tr
     \<Longrightarrow> tr_operation tr = md_name md \<and> tr_trigger_type tr = ''event''"
  by (auto simp: frontmatter_trigger_def mk_frontmatter_Trigger_def
           split: yaml.splits if_splits dest!: validated_Inr)

lemma parse_frontmatter_triggers_operation:
  assumes "parse_frontmatter_triggers x data md = Inr fm"
  shows "\<forall>tr \<in> set fm. tr_operation tr = md_name md \<and> tr_trigger_type tr = ''event''"
proof (cases "truthy (py_get data ''Triggers'')")
  case False
  with assms show ?thesis by (simp add: parse_frontmatter_triggers_def)
next
  case True
  with assms obtain ts where ts: "mapM (frontmatter_trigger x md) ts = Inr fm"
    by (auto simp: parse_frontmatter_triggers_def split: yaml.splits)
  have "tr_operation tr = md_name md \<and> tr_trigger_type tr = ''event''" if "tr \<in> set fm" for tr
  proof -
    from that obtain i where i: "i < length fm" "fm ! i = tr"
      by (auto simp: in_set_conv_nth)
    from mapM_Inr [OF ts] i have "frontmatter_trigger x md (ts ! i) = Inr tr"
      by (auto simp: list_all2_conv_all_nth)
    then show ?thesis by (rule frontmatter_trigger_operation)
  qed
  then show ?thesis by blast
qed

lemma parse_frontmatter_triggers_length:
  assumes "parse_frontmatter_triggers x data md = Inr fm"
    and "py_get data ''Triggers'' = YList ts"
  shows "length fm = length ts"
proof (cases "ts = []")
  case True
  with assms show ?thesis by (simp add: parse_frontmatter_triggers_def truthy_def)
next
  case False
  with assms have "mapM (frontmatter_trigger x md) ts = Inr fm"
    by (simp add: parse_frontmatter_triggers_def truthy_def)
  from mapM_Inr [OF this] show ?thesis
    by (simp add: list_all2_lengthD)
qed

text \<open>
  C2, as the code has it. The frontmatter's triggers are read for every document whose
  type is not the Tool tag, whatever the type is: the triggers of the result are those of
  the frontmatter, one for each entry of the \<open>Triggers\<close> list, followed by those of the
  markdown section, and each trigger of the frontmatter has the document's own name as
  its operation. Only a Tool document has none.
\<close>

theorem frontmatter_triggers_of_non_tool_documents:
  assumes "extract_metadata x content = Inr (md, body, data)"
    and "parse_document x content = Inr d"
  shows "(md_type md = ''[Tool]'' \<longrightarrow> doc_triggers (document_base d) = [])
         \<and> (md_type md \<noteq> ''[Tool]'' \<longrightarrow>
              (\<exists>fm mt. parse_frontmatter_triggers x data md = Inr fm
                  \<and> parse_triggers x body = Inr mt
                  \<and> doc_triggers (document_base d) = fm @ mt
                  \<and> (\<forall>tr \<in> set fm. tr_operation tr = md_name md)
                  \<and> (\<forall>ts. py_get data ''Triggers'' = YList ts \<longrightarrow> length fm = length ts)))"
proof (cases "md_type md = ''[Tool]''")
  case True
  with assms show ?thesis
    by (auto simp: parse_document_def parse_document_try_def parse_sections_def
                   tool_document_def document_base_def
             split: sum.splits if_splits)
next
  case False
  with assms obtain fm mt where fm: "parse_frontmatter_triggers x data md = Inr fm"
    and mt: "parse_triggers x body = Inr mt"
    and d: "doc_triggers (document_base d) = fm @ mt"
    by (auto simp: parse_document_def parse_document_try_def parse_sections_def
                   plain_document_def document_base_def
             split: sum.splits if_splits)
  from parse_frontmatter_triggers_operation [OF fm] parse_frontmatter_triggers_length [OF fm]
    fm mt d False
  show ?thesis by auto
qed

lemma parse_notes_triggers:
  "parse_document demo_ext doc_notes_triggers = Inr notes_document"
  by code_simp

lemma extract_notes_triggers:
  "extract_metadata demo_ext doc_notes_triggers
     = Inr (\<lparr>md_name = ''Notes'', md_type = ''[Document]'', md_description = ''Plain notes'',
             md_provider = None\<rparr>,
            ''Some notes.\<newline>'',
            [(YStr ''Name'', YStr ''Notes''), (YStr ''Type'', YList [YStr ''Document'']),
             (YStr ''Description'', YStr ''Plain notes''),
             (YStr ''Triggers'', YList [YDict [(YStr ''event_type'', YStr ''mail.received'')]])])"
  by code_simp

theorem frontmatter_triggers_of_non_tool_documents_witness:
  "\<exists>fm mt. doc_triggers (document_base notes_document) = fm @ mt
      \<and> length fm = 1 \<and> (\<forall>tr \<in> set fm. tr_operation tr = ''Notes'')"
proof -
  have ty: "md_type \<lparr>md_name = ''Notes'', md_type = ''[Document]'',
      md_description = ''Plain notes'', md_provider = None\<rparr> \<noteq> ''[Tool]''"
    by simp
  have tr: "py_get [(YStr ''Name'', YStr ''Notes''), (YStr ''Type'', YList [YStr ''Document'']),
             (YStr ''Description'', YStr ''Plain notes''),
             (YStr ''Triggers'', YList [YDict [(YStr ''event_type'', YStr ''mail.received'')]])]
             ''Triggers'' = YList [YDict [(YStr ''event_type'', YStr ''mail.received'')]]"
    by (simp add: py_get_def dict_get_def)
  from frontmatter_triggers_of_non_tool_documents [OF extract_notes_triggers parse_notes_triggers]
    ty tr
  show ?thesis by fastforce
qed

theorem frontmatter_triggers_in_plain_document:
  "parse_document demo_ext doc_notes_triggers
     = Inr (Plain \<lparr>doc_metadata = \<lparr>md_name = ''Notes'', md_type = ''[Document]'',
                                     md_description = ''Plain notes'', md_provider = None\<rparr>,
                   doc_imports = [], doc_definitions = [], doc_setup = None,
                   doc_operations = [],
                   doc_triggers =
                     [\<lparr>tr_raw_text = ''Frontmatter trigger: mail.received'',
                       tr_trigger_type = ''event'', tr_schedule = None,
                       tr_event_type = Some ''mail.received'', tr_filter = None,
                       tr_operation = ''Notes'', tr_queue_when_paused = True\<rparr>]\<rparr>)"
  using parse_notes_triggers by (simp add: notes_document_def)

subsection \<open>The type of the frontmatter\<close>

text \<open>
  C8, as the code has it. In a valid frontmatter (it loads as a dictionary with a name and
  a description that are non-empty strings, the provider absent, None or a string), a
  Type written \<open>[Word]\<close> whose \<open>Word\<close> the loader reads as a string gives the metadata the
  type \<open>[Word]\<close>, whether the loader read the whole as the string \<open>[Word]\<close> or as the
  one-element list of the string \<open>Word\<close>; a Type read as the empty list gives the type
  \<open>[]\<close>. The same holds of the metadata of the document \<open>parse_document\<close> returns.
  The claim does not hold of every \<open>Word\<close>: YAML reads \<open>Yes\<close> as the boolean \<open>True\<close>, and
  the type of a frontmatter with \<open>Type: [Yes]\<close> is \<open>[True]\<close>.
\<close>

theorem type_rewound_to_bracket_string:
  assumes "re_match frontmatter_pattern content = Some m"
    and "safe_load x (group_str content m 1) = Inr (YDict d)"
    and "dict_get d ''Name'' = Some (YStr n)" and "n \<noteq> []"
    and "dict_get d ''Description'' = Some (YStr ds)" and "ds \<noteq> []"
    and "py_get d ''Provider'' = YNull \<or> (\<exists>p. py_get d ''Provider'' = YStr p)"
  shows "(dict_get d ''Type'' = Some (YStr (''['' @ w @ '']'')) \<or> dict_get d ''Type'' = Some (YList [YStr w])
            \<longrightarrow> (\<exists>md. extract_metadata x content = Inr (md, group_str content m 2, d)
                      \<and> md_type md = ''['' @ w @ '']'')
                \<and> (\<forall>doc. parse_document x content = Inr doc
                      \<longrightarrow> md_type (doc_metadata (document_base doc)) = ''['' @ w @ '']''))
         \<and> (dict_get d ''Type'' = Some (YList [])
            \<longrightarrow> (\<exists>md. extract_metadata x content = Inr (md, group_str content m 2, d)
                      \<and> md_type md = ''[]'')
                \<and> (\<forall>doc. parse_document x content = Inr doc
                      \<longrightarrow> md_type (doc_metadata (document_base doc)) = ''[]''))"
proof -
  have ex: "\<exists>md. extract_metadata x content = Inr (md, group_str content m 2, d) \<and> md_type md = t"
    if "dict_get d ''Type'' = Some ty" "type_string ty = YStr t" for ty t
    using assms that
    by (auto simp: extract_metadata_def metadata_of_yaml_def metadata_of_dict_def mk_Metadata_def
                   validated_def str_field_def opt_str_field_def the_str_def too_short_def)
  have doc: "\<forall>doc. parse_document x content = Inr doc
                \<longrightarrow> md_type (doc_metadata (document_base doc)) = t"
    if "extract_metadata x content = Inr (md, group_str content m 2, d)" "md_type md = t" for md t
    using parse_document_metadata [OF that(1)] that(2) by auto
  have s1: "type_string (YStr (''['' @ w @ '']'')) = YStr (''['' @ w @ '']'')"
    by (simp add: type_string_def)
  have s2: "type_string (YList [YStr w]) = YStr (''['' @ w @ '']'')"
    by (simp add: type_string_def py_str_def)
  have s3: "type_string (YList []) = YStr ''[]''"
    by (simp add: type_string_def)
  show ?thesis
    using ex [OF _ s1] ex [OF _ s2] ex [OF _ s3] doc by blast
qed

theorem type_rewound_to_bracket_string_witness:
  "(\<exists>md. extract_metadata demo_ext (frontmatter yaml_tool)
           = Inr (md, [], projr_dict (demo_load yaml_tool)) \<and> md_type md = ''[Tool]'')
   \<and> (\<exists>md. extract_metadata demo_ext (frontmatter yaml_quoted_type)
           = Inr (md, [], projr_dict (demo_load yaml_quoted_type)) \<and> md_type md = ''[Note]'')
   \<and> (\<exists>md. extract_metadata demo_ext (frontmatter yaml_empty_type)
           = Inr (md, [], projr_dict (demo_load yaml_empty_type)) \<and> md_type md = ''[]'')"
proof -
  let ?m1 = "RMatch 0 (MState 58 [] (Some CHR 0x0A) [(2, 58, 58), (1, 4, 53)])"
  let ?m2 = "RMatch 0 (MState 60 [] (Some CHR 0x0A) [(2, 60, 60), (1, 4, 55)])"
  let ?m3 = "RMatch 0 (MState 54 [] (Some CHR 0x0A) [(2, 54, 54), (1, 4, 49)])"
  let ?d1 = "[(YStr ''Name'', YStr ''Mailer''), (YStr ''Type'', YList [YStr ''Tool'']),
             (YStr ''Description'', YStr ''Sends mail'')]"
  let ?d2 = "[(YStr ''Name'', YStr ''Notes''), (YStr ''Type'', YStr ''[Note]''),
             (YStr ''Description'', YStr ''Plain notes'')]"
  let ?d3 = "[(YStr ''Name'', YStr ''Notes''), (YStr ''Type'', YList []),
             (YStr ''Description'', YStr ''Plain notes'')]"
  have m1: "re_match frontmatter_pattern (frontmatter yaml_tool) = Some ?m1" by code_simp
  have m2: "re_match frontmatter_pattern (frontmatter yaml_quoted_type) = Some ?m2" by code_simp
  have m3: "re_match frontmatter_pattern (frontmatter yaml_empty_type) = Some ?m3" by code_simp
  have l1: "safe_load demo_ext (group_str (frontmatter yaml_tool) ?m1 1) = Inr (YDict ?d1)"
    by code_simp
  have l2: "safe_load demo_ext (group_str (frontmatter yaml_quoted_type) ?m2 1) = Inr (YDict ?d2)"
    by code_simp
  have l3: "safe_load demo_ext (group_str (frontmatter yaml_empty_type) ?m3 1) = Inr (YDict ?d3)"
    by code_simp
  have g1: "group_str (frontmatter yaml_tool) ?m1 2 = []" by code_simp
  have g2: "group_str (frontmatter yaml_quoted_type) ?m2 2 = []" by code_simp
  have g3: "group_str (frontmatter yaml_empty_type) ?m3 2 = []" by code_simp
  have p1: "projr_dict (demo_load yaml_tool) = ?d1" by code_simp
  have p2: "projr_dict (demo_load yaml_quoted_type) = ?d2" by code_simp
  have p3: "projr_dict (demo_load yaml_empty_type) = ?d3" by code_simp
  have 1: "\<exists>md. extract_metadata demo_ext (frontmatter yaml_tool)
             = Inr (md, group_str (frontmatter yaml_tool) ?m1 2, ?d1) \<and> md_type md = ''['' @ ''Tool'' @ '']''"
    using type_rewound_to_bracket_string [OF m1 l1, where n = "''Mailer''" and ds = "''Sends mail''"
        and w = "''Tool''"]
    by (simp add: dict_get_def py_get_def)
  have 2: "\<exists>md. extract_metadata demo_ext (frontmatter yaml_quoted_type)
             = Inr (md, group_str (frontmatter yaml_quoted_type) ?m2 2, ?d2) \<and> md_type md = ''['' @ ''Note'' @ '']''"
    using type_rewound_to_bracket_string [OF m2 l2, where n = "''Notes''" and ds = "''Plain notes''"
        and w = "''Note''"]
    by (simp add: dict_get_def py_get_def)
  have 3: "\<exists>md. extract_metadata demo_ext (frontmatter yaml_empty_type)
             = Inr (md, group_str (frontmatter yaml_empty_type) ?m3 2, ?d3) \<and> md_type md = ''[]''"
    using type_rewound_to_bracket_string [OF m3 l3, where n = "''Notes''" and ds = "''Plain notes''"
        and w = "[]"]
    by (simp add: dict_get_def py_get_def)
  from 1 2 3 show ?thesis
    unfolding g1 g2 g3 p1 p2 p3 by simp
qed

theorem type_of_yes_is_true:
  "extract_metadata demo_ext
       ''---\<newline>Name: Notes\<newline>Type: [Yes]\<newline>Description: Plain notes\<newline>---\<newline>''
     = Inr (\<lparr>md_name = ''Notes'', md_type = ''[True]'', md_description = ''Plain notes'',
             md_provider = None\<rparr>,
            [],
            [(YStr ''Name'', YStr ''Notes''), (YStr ''Type'', YList [YBool True]),
             (YStr ''Description'', YStr ''Plain notes'')])"
  by code_simp

subsection \<open>The matcher on a text\<close>

declare ms.simps(5,6) [simp del]

declare finditer_from.simps [simp del]

lemma adv_Nil [simp]: "adv st [] = st"
  by (cases st) (simp add: adv_def)

lemma adv_append: "adv (adv st u) v = adv st (u @ v)"
  by (cases st) (auto simp: adv_def ac_simps)

lemma adv_sel [simp]:
  "st_pos (adv st w) = st_pos st + length w"
  "st_rest (adv st w) = drop (length w) (st_rest st)"
  "st_groups (adv st w) = st_groups st"
  by (simp_all add: adv_def)

lemma adv_prev [simp]: "w \<noteq> [] \<Longrightarrow> st_prev (adv st w) = Some (last w)"
  by (simp add: adv_def)

lemma ms_Chr_Cons:
  "st_rest st = c # cs \<Longrightarrow> ms (Chr p) st = (if p c then [adv st [c]] else [])"
  by (simp add: adv_def)

lemma ms_Chr_Nil: "st_rest st = [] \<Longrightarrow> ms (Chr p) st = []"
  by simp

lemma ms_Seq_single: "ms a st = [c] \<Longrightarrow> ms (Seq a b) st = ms b c"
  by simp

lemma ms_Seq_none: "ms a st = [] \<Longrightarrow> ms (Seq a b) st = []"
  by simp


lemma ms_cis:
  "ms (cis w) st =
     (if length w \<le> length (st_rest st) \<and> map lower_char (take (length w) (st_rest st)) = w
      then [adv st (take (length w) (st_rest st))] else [])"
proof (induction w arbitrary: st)
  case Nil
  then show ?case by (simp add: cis_def)
next
  case (Cons c w)
  show ?case
  proof (cases w)
    case Nil
    then show ?thesis
      by (cases "st_rest st") (auto simp: cis_def ci_def adv_def)
  next
    case (Cons c' w')
    have unfold: "cis (c # w) = Seq (ci c) (cis w)"
      using Cons by (simp add: cis_def)
    show ?thesis
    proof (cases "st_rest st")
      case Nil
      then show ?thesis by (simp add: unfold ci_def)
    next
      case (Cons d ds)
      then show ?thesis
        using Cons.IH [of "adv st [d]"]
        by (auto simp: unfold ci_def adv_def add.assoc take_Suc_conv_app_nth)
    qed
  qed
qed

lemma starts_Nil [simp]: "starts r st []"
  by (simp add: starts_def)

lemma starts_take: "starts r st (xs @ ys) \<Longrightarrow> starts r st xs"
  by (auto simp: starts_def)

lemma starts_ms: "starts r st (ms r st)"
  by (simp add: starts_def)

lemma starts_Seq:
  "starts a st [c] \<Longrightarrow> starts b c xs \<Longrightarrow> starts (Seq a b) st xs"
  by (auto simp: starts_def)

lemma concat_map_all_empty: "\<forall>z \<in> set zs. f z = [] \<Longrightarrow> concat (map f zs) = []"
  by (induction zs) auto

lemma starts_Seq_skip:
  "starts a st (pre @ [c]) \<Longrightarrow> \<forall>z \<in> set pre. ms b z = [] \<Longrightarrow> starts b c xs
     \<Longrightarrow> starts (Seq a b) st xs"
  by (auto simp: starts_def concat_map_all_empty)

lemma starts_Alt1: "starts a st xs \<Longrightarrow> starts (Alt a b) st xs"
  by (auto simp: starts_def)


lemma starts_Opt1: "starts a st xs \<Longrightarrow> starts (Opt a) st xs"
  by (simp add: Opt_def starts_Alt1)

lemma starts_Opt2: "ms a st = [] \<Longrightarrow> starts (Opt a) st [st]"
  by (simp add: Opt_def starts_def)

lemma starts_Group:
  "starts a st xs \<Longrightarrow> starts (Group n a) st (map (set_group n (st_pos st)) xs)"
  by (auto simp: starts_def set_group_def)


lemma starts_nonempty: "starts r st (x # xs) \<Longrightarrow> ms r st \<noteq> []"
  by (auto simp: starts_def)

text \<open>A repetition over a class of characters, on a text that begins with \<open>w\<close> in the class.\<close>

lemma ms_Star_Chr_stop:
  "st_rest st = [] \<or> \<not> p (hd (st_rest st)) \<Longrightarrow> ms (Star (Chr p)) st = [st]"
  by (cases "st_rest st") (auto simp: ms.simps(5))

lemma ms_LStar_Chr_stop:
  "st_rest st = [] \<or> \<not> p (hd (st_rest st)) \<Longrightarrow> ms (LStar (Chr p)) st = [st]"
  by (cases "st_rest st") (auto simp: ms.simps(6))

lemma ms_Star_Chr_step:
  "st_rest st = c # cs \<Longrightarrow> p c
     \<Longrightarrow> ms (Star (Chr p)) st = ms (Star (Chr p)) (adv st [c]) @ [st]"
  by (simp add: adv_def ms.simps(5) [of "Chr p" st])

lemma ms_LStar_Chr_step:
  "st_rest st = c # cs \<Longrightarrow> p c
     \<Longrightarrow> ms (LStar (Chr p)) st = st # ms (LStar (Chr p)) (adv st [c])"
  by (simp add: adv_def ms.simps(6) [of "Chr p" st])

lemma ms_Star_Chr:
  assumes "st_rest st = w @ r" and "list_all p w" and "r = [] \<or> \<not> p (hd r)"
  shows "ms (Star (Chr p)) st = map (\<lambda>k. adv st (take k w)) (rev [0..<Suc (length w)])"
  using assms
proof (induction w arbitrary: st)
  case Nil
  then show ?case by (simp add: ms_Star_Chr_stop)
next
  case (Cons c w)
  have step: "ms (Star (Chr p)) st = ms (Star (Chr p)) (adv st [c]) @ [st]"
    using Cons.prems by (intro ms_Star_Chr_step [where cs = "w @ r"]) auto
  have rest: "st_rest (adv st [c]) = w @ r"
    using Cons.prems by simp
  have ih: "ms (Star (Chr p)) (adv st [c])
              = map (\<lambda>k. adv (adv st [c]) (take k w)) (rev [0..<Suc (length w)])"
    using Cons.IH [OF rest] Cons.prems by simp
  have shift: "map (\<lambda>k. adv st (take k (c # w))) (rev [0..<Suc (length (c # w))])
                 = map (\<lambda>k. adv (adv st [c]) (take k w)) (rev [0..<Suc (length w)]) @ [st]"
  proof -
    have "[0..<Suc (length (c # w))] = 0 # map Suc [0..<Suc (length w)]"
      by (simp add: upt_conv_Cons map_Suc_upt del: upt_Suc)
    then show ?thesis
      by (simp add: rev_map adv_append o_def del: upt_Suc)
  qed
  show ?case
    unfolding step ih shift ..
qed

lemma ms_LStar_Chr:
  assumes "st_rest st = w @ r" and "list_all p w" and "r = [] \<or> \<not> p (hd r)"
  shows "ms (LStar (Chr p)) st = map (\<lambda>k. adv st (take k w)) [0..<Suc (length w)]"
  using assms
proof (induction w arbitrary: st)
  case Nil
  then show ?case by (simp add: ms_LStar_Chr_stop)
next
  case (Cons c w)
  have step: "ms (LStar (Chr p)) st = st # ms (LStar (Chr p)) (adv st [c])"
    using Cons.prems by (intro ms_LStar_Chr_step [where cs = "w @ r"]) auto
  have rest: "st_rest (adv st [c]) = w @ r"
    using Cons.prems by simp
  have ih: "ms (LStar (Chr p)) (adv st [c])
              = map (\<lambda>k. adv (adv st [c]) (take k w)) [0..<Suc (length w)]"
    using Cons.IH [OF rest] Cons.prems by simp
  have shift: "map (\<lambda>k. adv st (take k (c # w))) [0..<Suc (length (c # w))]
                 = st # map (\<lambda>k. adv (adv st [c]) (take k w)) [0..<Suc (length w)]"
  proof -
    have "[0..<Suc (length (c # w))] = 0 # map Suc [0..<Suc (length w)]"
      by (simp add: upt_conv_Cons map_Suc_upt del: upt_Suc)
    then show ?thesis
      by (simp add: adv_append o_def del: upt_Suc)
  qed
  show ?case
    unfolding step ih shift ..
qed

text \<open>Searching: the positions at which the pattern cannot begin are passed over.\<close>

lemma search_from_found:
  "starts r (MState i s p []) [st'] \<Longrightarrow> search_from r i p s = Some (RMatch i st')"
  by (cases s) (auto simp: starts_def)

lemma search_from_skip:
  assumes "\<And>st. st_rest st \<noteq> [] \<Longrightarrow> \<not> P (hd (st_rest st)) \<Longrightarrow> ms r st = []"
    and "\<forall>c \<in> set pre. \<not> P c"
  shows "search_from r i p (pre @ s)
           = search_from r (i + length pre) (if pre = [] then p else Some (last pre)) s"
  using assms(2)
proof (induction pre arbitrary: i p)
  case Nil
  then show ?case by simp
next
  case (Cons c pre)
  have here: "ms r (MState i ((c # pre) @ s) p []) = []"
    using Cons.prems by (intro assms(1)) auto
  show ?case
    using here Cons.IH [of "i + 1" "Some c"] Cons.prems by simp
qed

lemma Seq_first_class:
  "st_rest st \<noteq> [] \<Longrightarrow> \<not> P (hd (st_rest st)) \<Longrightarrow> ms (Seq (Chr P) b) st = []"
  by (cases "st_rest st") auto

lemma starts_Lit: "st_rest st = c # cs \<Longrightarrow> starts (Lit c) st [adv st [c]]"
  by (simp add: starts_def Lit_def adv_def)

lemma ms_Lit_other: "st_rest st = [] \<or> hd (st_rest st) \<noteq> c \<Longrightarrow> ms (Lit c) st = []"
  by (cases "st_rest st") (auto simp: Lit_def)

lemma starts_Star_Chr:
  assumes "st_rest st = w @ r" and "list_all p w" and "r = [] \<or> \<not> p (hd r)"
  shows "starts (Star (Chr p)) st [adv st w]"
proof -
  have "rev [0..<Suc (length w)] = length w # rev [0..<length w]"
    by simp
  then show ?thesis
    unfolding starts_def ms_Star_Chr [OF assms] by simp
qed

lemma ms_Plus_Chr:
  assumes "st_rest st = c # w @ r" and "p c" and "list_all p w" and "r = [] \<or> \<not> p (hd r)"
  shows "ms (Plus (Chr p)) st = map (\<lambda>k. adv st (c # take k w)) (rev [0..<Suc (length w)])"
proof -
  have rest: "st_rest (adv st [c]) = w @ r"
    using assms(1) by simp
  have "ms (Plus (Chr p)) st = ms (Star (Chr p)) (adv st [c])"
    using assms(1,2) by (simp add: Plus_def adv_def)
  also have "\<dots> = map (\<lambda>k. adv (adv st [c]) (take k w)) (rev [0..<Suc (length w)])"
    by (rule ms_Star_Chr [OF rest assms(3,4)])
  finally show ?thesis
    by (simp add: adv_append)
qed

lemma starts_Plus_Chr:
  assumes "st_rest st = w @ r" and "w \<noteq> []" and "list_all p w" and "r = [] \<or> \<not> p (hd r)"
  shows "starts (Plus (Chr p)) st [adv st w]"
proof -
  from assms(2) obtain c w' where w: "w = c # w'"
    by (cases w) auto
  have "rev [0..<Suc (length w')] = length w' # rev [0..<length w']"
    by simp
  then show ?thesis
    using assms unfolding w starts_def
    by (subst ms_Plus_Chr [where c = c and w = w' and r = r]) auto
qed

lemma ms_LPlus_Chr:
  assumes "st_rest st = c # w @ r" and "p c" and "list_all p w" and "r = [] \<or> \<not> p (hd r)"
  shows "ms (LPlus (Chr p)) st = map (\<lambda>k. adv st (c # take k w)) [0..<Suc (length w)]"
proof -
  have rest: "st_rest (adv st [c]) = w @ r"
    using assms(1) by simp
  have "ms (LPlus (Chr p)) st = ms (LStar (Chr p)) (adv st [c])"
    using assms(1,2) by (simp add: LPlus_def adv_def)
  also have "\<dots> = map (\<lambda>k. adv (adv st [c]) (take k w)) [0..<Suc (length w)]"
    by (rule ms_LStar_Chr [OF rest assms(3,4)])
  finally show ?thesis
    by (simp add: adv_append)
qed

lemma slice_middle: "slice (u @ w @ v) (length u) (length u + length w) = w"
  by (simp add: slice_def)

lemma group_str_lookup:
  "map_of (st_groups st) k = Some (a, b) \<Longrightarrow> group_str s (RMatch i st) k = slice s a b"
  by (simp add: group_str_def group_def)

subsection \<open>The pattern of the imports\<close>

lemma imports_pattern_first:
  "st_rest st \<noteq> [] \<Longrightarrow> \<not> (\<lambda>c. c = CHR ''['') (hd (st_rest st)) \<Longrightarrow> ms imports_pattern st = []"
  unfolding imports_pattern_def Lit_def seqs.simps by (rule Seq_first_class)

lemma starts_Group1:
  "starts a st [c] \<Longrightarrow> starts (Group n a) st [set_group n (st_pos st) c]"
  using starts_Group [of a st "[c]" n] by simp

lemma imports_pattern_match:
  assumes rest: "st_rest st = ''['' @ name @ '']:'' @ sp @ target @ rest"
    and name: "name \<noteq> []" "list_all (\<lambda>c. c \<noteq> CHR '']'') name"
    and sp: "list_all isspace sp"
    and target: "target \<noteq> []" "list_all (\<lambda>c. \<not> isspace c \<and> c \<noteq> CHR ''#'') target"
    and stop: "rest = [] \<or> isspace (hd rest)"
  shows "starts imports_pattern st
           [set_group 2 (st_pos st + 3 + length name + length sp)
              (adv (set_group 1 (st_pos st + 1) (adv st (''['' @ name))) ('']:'' @ sp @ target))]"
proof -
  define s1 where "s1 = adv st ''[''"
  define s2 where "s2 = set_group 1 (st_pos s1) (adv s1 name)"
  define s3 where "s3 = adv s2 '']''"
  define s4 where "s4 = adv s3 '':''"
  define s5 where "s5 = adv s4 sp"
  define s6 where "s6 = set_group 2 (st_pos s5) (adv s5 target)"
  have r1: "st_rest s1 = name @ '']:'' @ sp @ target @ rest"
    using rest by (simp add: s1_def)
  have r2: "st_rest s2 = '']:'' @ sp @ target @ rest"
    using r1 by (simp add: s2_def set_group_def)
  have r3: "st_rest s3 = '':'' @ sp @ target @ rest"
    using r2 by (simp add: s3_def)
  have r4: "st_rest s4 = sp @ target @ rest"
    using r3 by (simp add: s4_def)
  have r5: "st_rest s5 = target @ rest"
    using r4 by (simp add: s5_def)
  have r6: "st_rest s6 = rest"
    using r5 by (simp add: s6_def set_group_def)
  have a1: "starts (Lit CHR ''['') st [s1]"
    unfolding s1_def using rest by (intro starts_Lit) simp
  have b2: "'']:'' @ sp @ target @ rest = [] \<or> \<not> (\<lambda>c. c \<noteq> CHR '']'') (hd ('']:'' @ sp @ target @ rest))"
    by simp
  have a2: "starts (Group 1 (Plus (Chr (\<lambda>c. c \<noteq> CHR '']'')))) s1 [s2]"
    unfolding s2_def by (rule starts_Group1 [OF starts_Plus_Chr [OF r1 name b2]])
  have a3: "starts (Lit CHR '']'') s2 [s3]"
    unfolding s3_def using r2 by (intro starts_Lit) simp
  have a4: "starts (Lit CHR '':'') s3 [s4]"
    unfolding s4_def using r3 by (intro starts_Lit) simp
  have b5: "target @ rest = [] \<or> \<not> isspace (hd (target @ rest))"
    using target by (cases target) auto
  have a5: "starts (Star ws) s4 [s5]"
    unfolding ws_def s5_def by (rule starts_Star_Chr [OF r4 sp b5])
  have b6: "rest = [] \<or> \<not> (\<lambda>c. \<not> isspace c \<and> c \<noteq> CHR ''#'') (hd rest)"
    using stop by auto
  have a6: "starts (Group 2 (Plus (Chr (\<lambda>c. \<not> isspace c \<and> c \<noteq> CHR ''#'')))) s5 [s6]"
    unfolding s6_def by (rule starts_Group1 [OF starts_Plus_Chr [OF r5 target b6]])
  have a7: "starts (Opt (Seq (Lit CHR ''#'') (Group 3 (Plus (Chr (\<lambda>c. \<not> isspace c)))))) s6 [s6]"
  proof (rule starts_Opt2)
    have "ms (Lit CHR ''#'') s6 = []"
      using stop r6 by (intro ms_Lit_other) (auto simp: isspace_def)
    then show "ms (Seq (Lit CHR ''#'') (Group 3 (Plus (Chr (\<lambda>c. \<not> isspace c))))) s6 = []"
      by simp
  qed
  have "starts imports_pattern st [s6]"
    unfolding imports_pattern_def seqs.simps
    by (intro starts_Seq [OF a1] starts_Seq [OF a2] starts_Seq [OF a3] starts_Seq [OF a4]
              starts_Seq [OF a5] starts_Seq [OF a6] a7)
  moreover have "s6 = set_group 2 (st_pos st + 3 + length name + length sp)
              (adv (set_group 1 (st_pos st + 1) (adv st (''['' @ name))) ('']:'' @ sp @ target))"
    unfolding s6_def s5_def s4_def s3_def s2_def s1_def
    by (cases st) (simp add: set_group_def adv_def ac_simps)
  ultimately show ?thesis by simp
qed

lemma reaches_refl [simp]: "reaches st st"
  by (simp add: reaches_def)

lemma reaches_trans: "reaches a b \<Longrightarrow> reaches b c \<Longrightarrow> reaches a c"
  by (auto simp: reaches_def)

lemma reaches_set_group:
  "reaches st st' \<Longrightarrow> reaches st (MState (st_pos st') (st_rest st') q g)"
  by (simp add: reaches_def)

lemma ms_reaches: "st' \<in> set (ms r st) \<Longrightarrow> reaches st st'"
proof (induction r st arbitrary: st' rule: ms.induct)
  case (1 p st)
  then show ?case
    by (cases "st_rest st") (auto simp: reaches_def split: if_splits)
next
  case (3 a b st)
  then show ?case by (auto intro: reaches_trans)
next
  case (5 a st)
  from "5.prems" consider "st' = st"
    | c where "c \<in> set (ms a st)" "length (st_rest c) < length (st_rest st)"
        "st' \<in> set (ms (Star a) c)"
    by (subst (asm) ms.simps(5)) (auto split: if_splits)
  then show ?case
  proof cases
    case 1
    then show ?thesis by simp
  next
    case 2
    from "5.IH"(1) [OF 2(1)] "5.IH"(2) [OF 2(1,2,3)] show ?thesis
      by (rule reaches_trans)
  qed
next
  case (6 a st)
  from "6.prems" consider "st' = st"
    | c where "c \<in> set (ms a st)" "length (st_rest c) < length (st_rest st)"
        "st' \<in> set (ms (LStar a) c)"
    by (subst (asm) ms.simps(6)) (auto split: if_splits)
  then show ?case
  proof cases
    case 1
    then show ?thesis by simp
  next
    case 2
    from "6.IH"(1) [OF 2(1)] "6.IH"(2) [OF 2(1,2,3)] show ?thesis
      by (rule reaches_trans)
  qed
next
  case (7 n a st)
  then show ?case by (auto intro: reaches_set_group)
qed (auto split: if_splits)

lemma ms_groups:
  "st' \<in> set (ms r st)
     \<Longrightarrow> \<exists>new. st_groups st' = new @ st_groups st \<and> fst ` set new \<subseteq> gnums r"
proof (induction r st arbitrary: st' rule: ms.induct)
  case (1 p st)
  then show ?case
    by (cases "st_rest st") (auto split: if_splits)
next
  case (3 a b st)
  from "3.prems" obtain c where c: "c \<in> set (ms a st)" "st' \<in> set (ms b c)"
    by auto
  from "3.IH"(1) [OF c(1)] obtain n1 where n1: "st_groups c = n1 @ st_groups st"
      "fst ` set n1 \<subseteq> gnums a" by auto
  from "3.IH"(2) [OF c(1) c(2)] obtain n2 where n2: "st_groups st' = n2 @ st_groups c"
      "fst ` set n2 \<subseteq> gnums b" by auto
  have "st_groups st' = (n2 @ n1) @ st_groups st" using n1 n2 by simp
  moreover have "fst ` set (n2 @ n1) \<subseteq> gnums (Seq a b)" using n1 n2 by auto
  ultimately show ?case by blast
next
  case (4 a b st)
  then show ?case by fastforce
next
  case (5 a st)
  from "5.prems" consider "st' = st"
    | c where "c \<in> set (ms a st)" "length (st_rest c) < length (st_rest st)"
        "st' \<in> set (ms (Star a) c)"
    by (subst (asm) ms.simps(5)) (auto split: if_splits)
  then show ?case
  proof cases
    case 1
    then show ?thesis by simp
  next
    case 2
    from "5.IH"(1) [OF 2(1)] obtain n1 where n1: "st_groups c = n1 @ st_groups st"
      "fst ` set n1 \<subseteq> gnums a" by auto
    from "5.IH"(2) [OF 2(1,2,3)] obtain n2 where n2: "st_groups st' = n2 @ st_groups c"
      "fst ` set n2 \<subseteq> gnums (Star a)" by auto
    have "st_groups st' = (n2 @ n1) @ st_groups st" using n1 n2 by simp
    moreover have "fst ` set (n2 @ n1) \<subseteq> gnums (Star a)" using n1 n2 by auto
    ultimately show ?thesis by blast
  qed
next
  case (6 a st)
  from "6.prems" consider "st' = st"
    | c where "c \<in> set (ms a st)" "length (st_rest c) < length (st_rest st)"
        "st' \<in> set (ms (LStar a) c)"
    by (subst (asm) ms.simps(6)) (auto split: if_splits)
  then show ?case
  proof cases
    case 1
    then show ?thesis by simp
  next
    case 2
    from "6.IH"(1) [OF 2(1)] obtain n1 where n1: "st_groups c = n1 @ st_groups st"
      "fst ` set n1 \<subseteq> gnums a" by auto
    from "6.IH"(2) [OF 2(1,2,3)] obtain n2 where n2: "st_groups st' = n2 @ st_groups c"
      "fst ` set n2 \<subseteq> gnums (LStar a)" by auto
    have "st_groups st' = (n2 @ n1) @ st_groups st" using n1 n2 by simp
    moreover have "fst ` set (n2 @ n1) \<subseteq> gnums (LStar a)" using n1 n2 by auto
    ultimately show ?thesis by blast
  qed
next
  case (7 n a st)
  from "7.prems" obtain c where c: "c \<in> set (ms a st)"
    "st' = MState (st_pos c) (st_rest c) (st_prev c) ((n, st_pos st, st_pos c) # st_groups c)"
    by auto
  from "7.IH" [OF c(1)] obtain n1 where n1: "st_groups c = n1 @ st_groups st"
      "fst ` set n1 \<subseteq> gnums a" by auto
  have "st_groups st' = ((n, st_pos st, st_pos c) # n1) @ st_groups st" using c n1 by simp
  moreover have "fst ` set ((n, st_pos st, st_pos c) # n1) \<subseteq> gnums (Group n a)" using n1 by auto
  ultimately show ?case by blast
qed (auto split: if_splits)

lemma search_from_Some:
  assumes "search_from r i p s = Some m"
  shows "\<exists>u v q. s = u @ v \<and> m_start m = i + length u
           \<and> ms r (MState (m_start m) v q []) \<noteq> []
           \<and> m_state m = hd (ms r (MState (m_start m) v q []))"
  using assms
proof (induction s arbitrary: i p)
  case Nil
  then show ?case
    by (cases "ms r (MState i [] p [])")
       (auto intro!: exI [of _ p] split: list.splits)
next
  case (Cons c cs)
  show ?case
  proof (cases "ms r (MState i (c # cs) p [])")
    case Nil
    with Cons.prems have "search_from r (i + 1) (Some c) cs = Some m" by simp
    from Cons.IH [OF this] obtain u v q where
      "cs = u @ v" "m_start m = i + 1 + length u" "ms r (MState (m_start m) v q []) \<noteq> []"
      "m_state m = hd (ms r (MState (m_start m) v q []))" by blast
    then show ?thesis
      by (intro exI [of _ "c # u"] exI [of _ v] exI [of _ q]) simp
  next
    case (Cons st sts)
    with Cons.prems show ?thesis
      by (intro exI [of _ "[]"] exI [of _ "c # cs"] exI [of _ p]) auto
  qed
qed

lemma search_from_reaches:
  assumes "search_from r i p s = Some m"
  shows "\<exists>u w. s = u @ w @ st_rest (m_state m) \<and> m_start m = i + length u
           \<and> m_end m = m_start m + length w"
proof -
  from search_from_Some [OF assms] obtain u v q where
    uv: "s = u @ v" "m_start m = i + length u" "ms r (MState (m_start m) v q []) \<noteq> []"
      "m_state m = hd (ms r (MState (m_start m) v q []))" by blast
  then have "m_state m \<in> set (ms r (MState (m_start m) v q []))" by simp
  from ms_reaches [OF this] obtain w where
    w: "v = w @ st_rest (m_state m)" "st_pos (m_state m) = m_start m + length w"
    by (auto simp: reaches_def)
  show ?thesis
    using uv(1,2) w by (intro exI [of _ u] exI [of _ w]) (simp add: m_end_def)
qed

lemma finditer_from_mem:
  assumes "m \<in> set (finditer_from r i p s)"
  shows "\<exists>u v q. s = u @ v \<and> m_start m = i + length u
           \<and> m_state m \<in> set (ms r (MState (m_start m) v q []))"
  using assms
proof (induction r i p s rule: finditer_from.induct)
  case (1 r i p s)
  show ?case
  proof (cases "search_from r i p s")
    case None
    with "1.prems" show ?thesis by (simp add: finditer_from.simps [of r i p s])
  next
    case (Some m0)
    from search_from_Some [OF Some] obtain u v q where
      uv: "s = u @ v" "m_start m0 = i + length u" "ms r (MState (m_start m0) v q []) \<noteq> []"
        "m_state m0 = hd (ms r (MState (m_start m0) v q []))" by blast
    from search_from_reaches [OF Some] obtain u' w where
      w: "s = u' @ w @ st_rest (m_state m0)" "m_start m0 = i + length u'"
         "m_end m0 = m_start m0 + length w" by blast
    show ?thesis
    proof (cases "m = m0")
      case True
      with uv show ?thesis
        by (intro exI [of _ u] exI [of _ v] exI [of _ q]) simp
    next
      case False
      with "1.prems" Some have go: "i < m_end m0 \<and> length (st_rest (m_state m0)) < length s"
        and mem: "m \<in> set (finditer_from r (m_end m0) (st_prev (m_state m0)) (st_rest (m_state m0)))"
        by (auto simp: finditer_from.simps [of r i p s] split: if_splits)
      from "1.IH" [OF Some _ mem] go obtain u2 v2 q2 where
        "st_rest (m_state m0) = u2 @ v2" "m_start m = m_end m0 + length u2"
        "m_state m \<in> set (ms r (MState (m_start m) v2 q2 []))" by auto
      with w show ?thesis
        by (intro exI [of _ "u' @ w @ u2"] exI [of _ v2] exI [of _ q2]) simp
    qed
  qed
qed

lemma re_finditer_mem:
  assumes "m \<in> set (re_finditer r s)"
  shows "m_start m \<le> length s
           \<and> (\<exists>q. m_state m \<in> set (ms r (MState (m_start m) (drop (m_start m) s) q [])))"
proof -
  from finditer_from_mem [OF assms [unfolded re_finditer_def]] obtain u v q where
    "s = u @ v" "m_start m = length u" "m_state m \<in> set (ms r (MState (m_start m) v q []))"
    by auto
  then show ?thesis by auto
qed

text \<open>A group around a repetition that consumes something is set to a non-empty span.\<close>

lemma ms_Group_Plus_Chr:
  assumes "st' \<in> set (ms (Group n (Plus (Chr p))) st)"
  shows "\<exists>new. st_groups st' = (n, st_pos st, st_pos st') # st_groups st
           \<and> st_pos st < st_pos st'"
proof -
  from assms obtain c where c: "c \<in> set (ms (Plus (Chr p)) st)"
    and st': "st' = MState (st_pos c) (st_rest c) (st_prev c) ((n, st_pos st, st_pos c) # st_groups c)"
    by auto
  from c obtain d where d: "d \<in> set (ms (Chr p) st)" "c \<in> set (ms (Star (Chr p)) d)"
    by (auto simp: Plus_def)
  from d(1) have "st_pos d = st_pos st + 1" "st_groups d = st_groups st"
    by (cases "st_rest st"; auto split: if_splits)+
  moreover from ms_reaches [OF d(2)] have "st_pos d \<le> st_pos c"
    by (auto simp: reaches_def)
  moreover from ms_groups [OF d(2)] have "st_groups c = st_groups d"
    by auto
  ultimately show ?thesis using st' by auto
qed

lemma mapM_all_Inr:
  "\<forall>y \<in> set ys. f y = Inr (g y) \<Longrightarrow> mapM f ys = Inr (map g ys)"
  by (induction ys) auto

lemma ms_Seq_mem:
  "st'' \<in> set (ms (Seq a b) st) \<longleftrightarrow> (\<exists>c \<in> set (ms a st). st'' \<in> set (ms b c))"
  by auto

lemma ms_no_groups:
  "st' \<in> set (ms r st) \<Longrightarrow> gnums r = {} \<Longrightarrow> st_groups st' = st_groups st"
  using ms_groups [of st' r st] by auto

lemma ms_pos_mono: "st' \<in> set (ms r st) \<Longrightarrow> st_pos st \<le> st_pos st'"
  using ms_reaches [of st' r st] by (auto simp: reaches_def)

lemma ms_pos_bound:
  assumes "st' \<in> set (ms r st)" and "st_pos st + length (st_rest st) = n"
  shows "st_pos st' + length (st_rest st') = n"
  using ms_reaches [OF assms(1)] assms(2) by (auto simp: reaches_def)

lemma gnums_simps [simp]:
  "gnums (Lit c) = {}" "gnums ws = {}" "gnums dot = {}" "gnums any = {}" "gnums nl = {}"
  "gnums dig = {}" "gnums wordc = {}" "gnums (Plus r) = gnums r" "gnums (LPlus r) = gnums r"
  "gnums (Opt r) = gnums r"
  by (simp_all add: Lit_def ws_def dot_def any_def nl_def dig_def wordc_def Plus_def LPlus_def
        Opt_def)

lemma slice_nonempty: "a < b \<Longrightarrow> b \<le> length s \<Longrightarrow> slice s a b \<noteq> []"
  by (simp add: slice_def)

lemma imports_groups:
  assumes "m \<in> set (re_finditer imports_pattern s)"
  shows "group_str s m 1 \<noteq> [] \<and> group_str s m 2 \<noteq> []"
proof -
  from re_finditer_mem [OF assms] obtain q where
    i: "m_start m \<le> length s"
    and mem: "m_state m \<in> set (ms imports_pattern (MState (m_start m) (drop (m_start m) s) q []))"
    by blast
  define st0 where "st0 = MState (m_start m) (drop (m_start m) s) q []"
  have n0: "st_pos st0 + length (st_rest st0) = length s"
    using i by (simp add: st0_def)
  from mem obtain s1 s2 s3 s4 s5 s6 where
    c1: "s1 \<in> set (ms (Lit CHR ''['') st0)"
    and c2: "s2 \<in> set (ms (Group 1 (Plus (Chr (\<lambda>c. c \<noteq> CHR '']'')))) s1)"
    and c3: "s3 \<in> set (ms (Lit CHR '']'') s2)"
    and c4: "s4 \<in> set (ms (Lit CHR '':'') s3)"
    and c5: "s5 \<in> set (ms (Star ws) s4)"
    and c6: "s6 \<in> set (ms (Group 2 (Plus (Chr (\<lambda>c. \<not> isspace c \<and> c \<noteq> CHR ''#'')))) s5)"
    and c7: "m_state m \<in> set (ms (Opt (Seq (Lit CHR ''#'')
                (Group 3 (Plus (Chr (\<lambda>c. \<not> isspace c)))))) s6)"
    unfolding imports_pattern_def seqs.simps st0_def [symmetric] ms_Seq_mem by blast
  have g1: "st_groups s1 = []"
    using ms_no_groups [OF c1] by (simp add: st0_def)
  from ms_Group_Plus_Chr [OF c2] have g2: "st_groups s2 = [(1, st_pos s1, st_pos s2)]"
    and p2: "st_pos s1 < st_pos s2" using g1 by auto
  have g5: "st_groups s5 = st_groups s2"
    using ms_no_groups [OF c3] ms_no_groups [OF c4] ms_no_groups [OF c5] by simp
  from ms_Group_Plus_Chr [OF c6] have
    g6: "st_groups s6 = [(2, st_pos s5, st_pos s6), (1, st_pos s1, st_pos s2)]"
    and p6: "st_pos s5 < st_pos s6" using g5 g2 by auto
  from ms_groups [OF c7] obtain new where
    new: "st_groups (m_state m) = new @ st_groups s6" "fst ` set new \<subseteq> {3}"
    by auto
  have none: "map_of new k = None" if "k \<noteq> 3" for k
    using new(2) that by (auto simp: map_of_eq_None_iff)
  have l1: "map_of (st_groups (m_state m)) 1 = Some (st_pos s1, st_pos s2)"
    and l2: "map_of (st_groups (m_state m)) 2 = Some (st_pos s5, st_pos s6)"
    using none [of 1] none [of 2] by (simp_all add: new(1) g6 map_add_def)
  have b1: "st_pos s1 + length (st_rest s1) = length s" by (rule ms_pos_bound [OF c1 n0])
  have b2: "st_pos s2 + length (st_rest s2) = length s" by (rule ms_pos_bound [OF c2 b1])
  have b3: "st_pos s3 + length (st_rest s3) = length s" by (rule ms_pos_bound [OF c3 b2])
  have b4: "st_pos s4 + length (st_rest s4) = length s" by (rule ms_pos_bound [OF c4 b3])
  have b5: "st_pos s5 + length (st_rest s5) = length s" by (rule ms_pos_bound [OF c5 b4])
  have b6: "st_pos s6 + length (st_rest s6) = length s" by (rule ms_pos_bound [OF c6 b5])
  have "group_str s m 1 = slice s (st_pos s1) (st_pos s2)"
    and "group_str s m 2 = slice s (st_pos s5) (st_pos s6)"
    using l1 l2 by (simp_all add: group_str_def group_def)
  moreover have "slice s (st_pos s1) (st_pos s2) \<noteq> []"
    using p2 b2 by (intro slice_nonempty) auto
  moreover have "slice s (st_pos s5) (st_pos s6) \<noteq> []"
    using p6 b6 by (intro slice_nonempty) auto
  ultimately show ?thesis by simp
qed

lemma parse_imports_eq:
  "parse_imports x content = Inr (map (import_of content) (re_finditer imports_pattern content))"
  unfolding parse_imports_def
proof (rule mapM_all_Inr, rule ballI)
  fix m assume "m \<in> set (re_finditer imports_pattern content)"
  from imports_groups [OF this]
  show "import_of_match x content m = Inr (import_of content m)"
    by (simp add: import_of_match_def mk_Import_def validated_def too_short_def import_of_def)
qed

lemma finditer_from_head:
  "search_from r i p s = Some m \<Longrightarrow> \<exists>more. finditer_from r i p s = m # more"
  by (simp add: finditer_from.simps [of r i p s])

lemma parse_imports_occurrence:
  assumes pre: "\<forall>c \<in> set pre. c \<noteq> CHR ''[''"
    and name: "name \<noteq> []" "list_all (\<lambda>c. c \<noteq> CHR '']'') name"
    and sp: "list_all isspace sp"
    and target: "target \<noteq> []" "list_all (\<lambda>c. \<not> isspace c \<and> c \<noteq> CHR ''#'') target"
    and stop: "rest = [] \<or> isspace (hd rest)"
  shows "\<exists>more. parse_imports x (pre @ ''['' @ name @ '']:'' @ sp @ target @ rest)
           = Inr (\<lparr>imp_concept_name = name, imp_path = target, imp_anchor = None\<rparr> # more)"
proof -
  define occ where "occ = ''['' @ name @ '']:'' @ sp @ target @ rest"
  define body where "body = pre @ occ"
  define st0 where "st0 = MState (length pre) occ (if pre = [] then None else Some (last pre)) []"
  define st6 where "st6 = set_group 2 (st_pos st0 + 3 + length name + length sp)
              (adv (set_group 1 (st_pos st0 + 1) (adv st0 (''['' @ name))) ('']:'' @ sp @ target))"
  have skip: "search_from imports_pattern 0 None body
                = search_from imports_pattern (length pre) (if pre = [] then None else Some (last pre)) occ"
    unfolding body_def
    using search_from_skip [where r = imports_pattern and P = "\<lambda>c. c = CHR ''[''" and pre = pre
        and i = 0 and p = None and s = occ] imports_pattern_first pre
    by auto
  have "starts imports_pattern st0 [st6]"
    unfolding st6_def
    by (rule imports_pattern_match [OF _ name sp target stop]) (simp add: st0_def occ_def)
  then have found: "search_from imports_pattern 0 None body = Some (RMatch (length pre) st6)"
    unfolding skip st0_def by (rule search_from_found)
  from finditer_from_head [OF found] obtain more where
    more: "re_finditer imports_pattern body = RMatch (length pre) st6 # more"
    by (auto simp: re_finditer_def)
  have groups: "st_groups st6 = [(2, length pre + 3 + length name + length sp,
                                  length pre + 3 + length name + length sp + length target),
                                 (1, length pre + 1, length pre + 1 + length name)]"
    by (simp add: st6_def st0_def set_group_def adv_def)
  have body1: "body = (pre @ ''['') @ name @ ('']:'' @ sp @ target @ rest)"
    and body2: "body = (pre @ ''['' @ name @ '']:'' @ sp) @ target @ rest"
    by (simp_all add: body_def occ_def)
  have p1: "length pre + 1 = length (pre @ ''['')"
    and p2: "length pre + 3 + length name + length sp = length (pre @ ''['' @ name @ '']:'' @ sp)"
    by simp_all
  have "slice body (length pre + 1) (length pre + 1 + length name) = name"
    unfolding p1 body1 by (rule slice_middle)
  moreover have "slice body (length pre + 3 + length name + length sp)
                   (length pre + 3 + length name + length sp + length target) = target"
    unfolding p2 body2 by (rule slice_middle)
  ultimately have "import_of body (RMatch (length pre) st6)
                     = \<lparr>imp_concept_name = name, imp_path = target, imp_anchor = None\<rparr>"
    by (simp add: import_of_def group_str_def group_def groups)
  then show ?thesis
    unfolding body_def [symmetric, unfolded occ_def] parse_imports_eq more
    by (simp add: body_def occ_def)
qed

subsection \<open>The scan of \<open>finditer\<close>\<close>

lemma inside_state_at: "i \<le> length s \<Longrightarrow> inside s (state_at s i)"
  by (simp add: inside_def state_at_def)

lemma inside_groups:
  "inside s st \<Longrightarrow> inside s (MState (st_pos st) (st_rest st) (st_prev st) g)"
  by (simp add: inside_def)

lemma inside_Chr:
  assumes "inside s st" and "st_rest st = c # cs"
  shows "inside s (MState (Suc (st_pos st)) cs (Some c) g)"
proof -
  from assms have d: "drop (st_pos st) s = c # cs" and le: "st_pos st \<le> length s"
    by (simp_all add: inside_def)
  from d have lt: "st_pos st < length s"
    using le by (cases "st_pos st = length s") auto
  from d lt have c: "s ! st_pos st = c"
    by (metis nth_via_drop)
  from d have "drop (Suc (st_pos st)) s = cs"
    by (metis drop_Suc list.sel(3) tl_drop)
  with lt c show ?thesis
    by (simp add: inside_def prev_at_def)
qed

lemma ms_inside: "st' \<in> set (ms r st) \<Longrightarrow> inside s st \<Longrightarrow> inside s st'"
proof (induction r st arbitrary: st' rule: ms.induct)
  case (1 p st)
  then show ?case
    by (cases "st_rest st") (auto split: if_splits intro: inside_Chr)
next
  case (3 a b st)
  then show ?case by auto
next
  case (5 a st)
  from "5.prems"(1) consider "st' = st"
    | c where "c \<in> set (ms a st)" "length (st_rest c) < length (st_rest st)"
        "st' \<in> set (ms (Star a) c)"
    by (subst (asm) ms.simps(5)) (auto split: if_splits)
  then show ?case
  proof cases
    case 1
    then show ?thesis using "5.prems" by simp
  next
    case 2
    from "5.IH"(2) [OF 2(1,2,3)] "5.IH"(1) [OF 2(1)] "5.prems"(2) show ?thesis
      by blast
  qed
next
  case (6 a st)
  from "6.prems"(1) consider "st' = st"
    | c where "c \<in> set (ms a st)" "length (st_rest c) < length (st_rest st)"
        "st' \<in> set (ms (LStar a) c)"
    by (subst (asm) ms.simps(6)) (auto split: if_splits)
  then show ?case
  proof cases
    case 1
    then show ?thesis using "6.prems" by simp
  next
    case 2
    from "6.IH"(2) [OF 2(1,2,3)] "6.IH"(1) [OF 2(1)] "6.prems"(2) show ?thesis
      by blast
  qed
next
  case (7 n a st)
  then show ?case by (auto intro: inside_groups)
qed (auto split: if_splits)

lemma drop_Cons_next:
  assumes "drop i s = c # cs"
  shows "i < length s" and "drop (i + 1) s = cs" and "prev_at s (i + 1) = Some c"
proof -
  show lt: "i < length s"
    using assms by (cases "i < length s") auto
  show "drop (i + 1) s = cs"
    using assms by (metis Suc_eq_plus1 drop_Suc list.sel(3) tl_drop)
  show "prev_at s (i + 1) = Some c"
    using assms lt by (simp add: prev_at_def) (metis nth_via_drop)
qed

lemma search_from_scan:
  assumes "i \<le> length s"
  shows "case search_from r i (prev_at s i) (drop i s) of
           None \<Rightarrow> \<forall>j. i \<le> j \<and> j \<le> length s \<longrightarrow> \<not> occurs_at r s j
         | Some m \<Rightarrow> i \<le> m_start m \<and> occurs_at r s (m_start m) \<and> m = match_at r s (m_start m)
                    \<and> (\<forall>j. i \<le> j \<and> j < m_start m \<longrightarrow> \<not> occurs_at r s j)"
  using assms
proof (induction "length s - i" arbitrary: i)
  case 0
  then have i: "i = length s" by simp
  show ?case
    by (cases "ms r (MState (length s) [] (prev_at s (length s)) [])")
       (auto simp: i occurs_at_def state_at_def match_at_def)
next
  case (Suc n)
  then have lt: "i < length s" by simp
  then obtain c cs where d: "drop i s = c # cs"
    by (cases "drop i s") auto
  note nx = drop_Cons_next [OF d]
  show ?case
  proof (cases "ms r (MState i (c # cs) (prev_at s i) [])")
    case Nil
    have here: "\<not> occurs_at r s i"
      using Nil d by (simp add: occurs_at_def state_at_def)
    have n: "n = length s - (i + 1)" using Suc.hyps(2) by simp
    have le: "i + 1 \<le> length s" using lt by simp
    have step: "search_from r i (prev_at s i) (drop i s)
                  = search_from r (i + 1) (prev_at s (i + 1)) (drop (i + 1) s)"
      using Nil d nx by simp
    have skip: "i \<le> j \<Longrightarrow> \<not> occurs_at r s j \<or> i + 1 \<le> j" for j
      using here by (cases "j = i") auto
    from Suc.hyps(1) [OF n le] show ?thesis
      unfolding step
      by (auto split: option.splits dest: skip)
  next
    case (Cons st sts)
    then show ?thesis
      using d lt by (auto simp: occurs_at_def state_at_def match_at_def)
  qed
qed


lemma match_at_sel [simp]: "m_start (match_at r s i) = i"
  by (simp add: match_at_def)

lemma match_at_inside:
  assumes "occurs_at r s i"
  shows "inside s (m_state (match_at r s i))"
proof -
  from assms have "hd (ms r (state_at s i)) \<in> set (ms r (state_at s i))" and "i \<le> length s"
    by (simp_all add: occurs_at_def)
  then show ?thesis
    by (auto simp: match_at_def intro: ms_inside inside_state_at)
qed

lemma match_at_end:
  assumes "occurs_at r s i"
  shows "m_end (match_at r s i) \<le> length s"
    and "st_rest (m_state (match_at r s i)) = drop (m_end (match_at r s i)) s"
    and "st_prev (m_state (match_at r s i)) = prev_at s (m_end (match_at r s i))"
  using match_at_inside [OF assms] by (simp_all add: inside_def m_end_def)


lemma match_at_consuming:
  assumes "consuming r" and "occurs_at r s i"
  shows "i < m_end (match_at r s i)"
proof -
  from assms(2) have "hd (ms r (state_at s i)) \<in> set (ms r (state_at s i))"
    by (simp add: occurs_at_def)
  with assms(1) have "st_pos (state_at s i) < st_pos (hd (ms r (state_at s i)))"
    unfolding consuming_def by blast
  then show ?thesis
    by (simp add: match_at_def m_end_def state_at_def)
qed

lemma finditer_from_scan:
  assumes "consuming r" and "i \<le> length s"
  shows "finditer_from r i (prev_at s i) (drop i s) =
           (case search_from r i (prev_at s i) (drop i s) of
              None \<Rightarrow> []
            | Some m \<Rightarrow> m # finditer_from r (m_end m) (prev_at s (m_end m)) (drop (m_end m) s))"
proof (cases "search_from r i (prev_at s i) (drop i s)")
  case None
  then show ?thesis by (simp add: finditer_from.simps [of r i])
next
  case (Some m)
  with search_from_scan [OF assms(2), of r] have le: "i \<le> m_start m"
    and occ: "occurs_at r s (m_start m)" and m: "m = match_at r s (m_start m)"
    by auto
  from match_at_consuming [OF assms(1) occ] m have lt: "m_start m < m_end m" by simp
  from match_at_end [OF occ] m have e: "m_end m \<le> length s"
    "st_rest (m_state m) = drop (m_end m) s" "st_prev (m_state m) = prev_at s (m_end m)"
    by simp_all
  have "i < m_end m \<and> length (st_rest (m_state m)) < length (drop i s)"
    using le lt e by auto
  then show ?thesis
    using Some e by (simp add: finditer_from.simps [of r i])
qed

lemma finditer_from_covers:
  assumes "consuming r" and "i \<le> length s" and "i \<le> j" and "occurs_at r s j"
  shows "\<exists>m \<in> set (finditer_from r i (prev_at s i) (drop i s)).
           m_start m \<le> j \<and> j < m_end m \<and> m = match_at r s (m_start m)"
  using assms(2,3)
proof (induction "length s - i" arbitrary: i rule: less_induct)
  case less
  from assms(4) have jl: "j \<le> length s" by (simp add: occurs_at_def)
  show ?case
  proof (cases "search_from r i (prev_at s i) (drop i s)")
    case None
    with search_from_scan [OF less.prems(1), of r] less.prems(2) jl assms(4) show ?thesis
      by auto
  next
    case (Some m)
    with search_from_scan [OF less.prems(1), of r] have le: "i \<le> m_start m"
      and occ: "occurs_at r s (m_start m)" and m: "m = match_at r s (m_start m)"
      and before: "\<forall>k. i \<le> k \<and> k < m_start m \<longrightarrow> \<not> occurs_at r s k"
      by auto
    from before less.prems(2) assms(4) have sj: "m_start m \<le> j"
      by (meson not_le_imp_less)
    from match_at_consuming [OF assms(1) occ] m have lt: "m_start m < m_end m" by simp
    from match_at_end(1) [OF occ] m have e: "m_end m \<le> length s" by simp
    have unfold: "finditer_from r i (prev_at s i) (drop i s)
                    = m # finditer_from r (m_end m) (prev_at s (m_end m)) (drop (m_end m) s)"
      using finditer_from_scan [OF assms(1) less.prems(1)] Some by simp
    show ?thesis
    proof (cases "j < m_end m")
      case True
      with sj m show ?thesis unfolding unfold by auto
    next
      case False
      then have "m_end m \<le> j" by simp
      moreover have "length s - m_end m < length s - i"
        using le lt e by auto
      ultimately obtain m' where
        "m' \<in> set (finditer_from r (m_end m) (prev_at s (m_end m)) (drop (m_end m) s))"
        "m_start m' \<le> j \<and> j < m_end m' \<and> m' = match_at r s (m_start m')"
        using less.hyps [OF _ e] by blast
      then show ?thesis unfolding unfold by auto
    qed
  qed
qed

lemma re_finditer_covers:
  assumes "consuming r" and "occurs_at r s j"
  shows "\<exists>m \<in> set (re_finditer r s).
           m_start m \<le> j \<and> j < m_end m \<and> m = match_at r s (m_start m)"
  using finditer_from_covers [OF assms(1) _ _ assms(2), of 0]
  by (simp add: re_finditer_def prev_at_def)

lemma imports_pattern_consuming: "consuming imports_pattern"
  unfolding consuming_def
proof (intro allI impI)
  fix st st' assume "st' \<in> set (ms imports_pattern st)"
  then obtain c where c: "c \<in> set (ms (Lit CHR ''['') st)"
    and r: "st' \<in> set (ms (seqs [Group 1 (Plus (Chr (\<lambda>c. c \<noteq> CHR '']''))), Lit CHR '']'', Lit CHR '':'',
           Star ws, Group 2 (Plus (Chr (\<lambda>c. \<not> isspace c \<and> c \<noteq> CHR ''#''))),
           Opt (Seq (Lit CHR ''#'') (Group 3 (Plus (Chr (\<lambda>c. \<not> isspace c)))))]) c)"
    unfolding imports_pattern_def seqs.simps ms_Seq_mem by blast
  from c have "st_pos c = st_pos st + 1"
    by (cases "st_rest st") (auto simp: Lit_def split: if_splits)
  with ms_pos_mono [OF r] show "st_pos st < st_pos st'" by simp
qed

subsection \<open>Every reference link\<close>

lemma import_of_link:
  assumes name: "name \<noteq> []" "list_all (\<lambda>c. c \<noteq> CHR '']'') name"
    and sp: "list_all isspace sp"
    and target: "target \<noteq> []" "list_all (\<lambda>c. \<not> isspace c \<and> c \<noteq> CHR ''#'') target"
    and stop: "rest = [] \<or> isspace (hd rest)"
    and body: "body = pre @ ''['' @ name @ '']:'' @ sp @ target @ rest"
  shows "occurs_at imports_pattern body (length pre)
         \<and> import_of body (match_at imports_pattern body (length pre))
             = \<lparr>imp_concept_name = name, imp_path = target, imp_anchor = None\<rparr>"
proof -
  define st0 where "st0 = state_at body (length pre)"
  define st6 where "st6 = set_group 2 (st_pos st0 + 3 + length name + length sp)
              (adv (set_group 1 (st_pos st0 + 1) (adv st0 (''['' @ name))) ('']:'' @ sp @ target))"
  have "starts imports_pattern st0 [st6]"
    unfolding st6_def
    by (rule imports_pattern_match [OF _ name sp target stop]) (simp add: st0_def state_at_def body)
  then obtain t where t: "ms imports_pattern (state_at body (length pre)) = st6 # t"
    by (auto simp: starts_def st0_def)
  have "length pre \<le> length body"
    by (simp add: body)
  then have occ: "occurs_at imports_pattern body (length pre)"
    by (simp add: occurs_at_def t)
  have m: "match_at imports_pattern body (length pre) = RMatch (length pre) st6"
    by (simp add: match_at_def t)
  have groups: "st_groups st6 = [(2, length pre + 3 + length name + length sp,
                                  length pre + 3 + length name + length sp + length target),
                                 (1, length pre + 1, length pre + 1 + length name)]"
    by (simp add: st6_def st0_def state_at_def set_group_def adv_def)
  have body1: "body = (pre @ ''['') @ name @ ('']:'' @ sp @ target @ rest)"
    and body2: "body = (pre @ ''['' @ name @ '']:'' @ sp) @ target @ rest"
    by (simp_all add: body)
  have p1: "length pre + 1 = length (pre @ ''['')"
    and p2: "length pre + 3 + length name + length sp = length (pre @ ''['' @ name @ '']:'' @ sp)"
    by simp_all
  have "slice body (length pre + 1) (length pre + 1 + length name) = name"
    unfolding p1 body1 by (rule slice_middle)
  moreover have "slice body (length pre + 3 + length name + length sp)
                   (length pre + 3 + length name + length sp + length target) = target"
    unfolding p2 body2 by (rule slice_middle)
  ultimately have "import_of body (RMatch (length pre) st6)
                     = \<lparr>imp_concept_name = name, imp_path = target, imp_anchor = None\<rparr>"
    by (simp add: import_of_def group_str_def group_def groups)
  with occ m show ?thesis by simp
qed

lemma imports_occurrence_reported:
  assumes occ: "occurs_at imports_pattern content i"
  shows "\<exists>m \<in> set (re_finditer imports_pattern content). m_start m \<le> i \<and> i < m_end m"
    and "\<forall>m \<in> set (re_finditer imports_pattern content). \<not> (m_start m < i \<and> i < m_end m)
           \<Longrightarrow> match_at imports_pattern content i \<in> set (re_finditer imports_pattern content)"
proof -
  from re_finditer_covers [OF imports_pattern_consuming occ] obtain m where
    m: "m \<in> set (re_finditer imports_pattern content)" "m_start m \<le> i" "i < m_end m"
       "m = match_at imports_pattern content (m_start m)"
    by blast
  then show "\<exists>m \<in> set (re_finditer imports_pattern content). m_start m \<le> i \<and> i < m_end m"
    by blast
  assume "\<forall>m \<in> set (re_finditer imports_pattern content). \<not> (m_start m < i \<and> i < m_end m)"
  with m have "m_start m = i" by fastforce
  with m(1,4) show "match_at imports_pattern content i \<in> set (re_finditer imports_pattern content)"
    by simp
qed

text \<open>
  C10, as the code has it. The imports are scanned in the whole body after the
  frontmatter, with no regard for code fences or sections: the imports of a parsed
  document are those \<open>_parse_imports\<close> finds in the body, and the scan never raises and
  makes one import of each match \<open>re.finditer\<close> reports. These matches do not overlap.
  Every occurrence of the pattern, at any offset \<open>i\<close> of the body, begins inside the text
  of a reported match; unless a match that began earlier runs over \<open>i\<close>, the occurrence is
  itself reported and its import is in the list. So a reference link \<open>[Name]: path\<close> that
  stands anywhere in the body, after any text \<open>pre\<close> (fence lines, headings, step or
  definition text), gives the import of \<open>Name\<close> and \<open>path\<close> unless an earlier match runs
  over its bracket, and it is the first import when \<open>pre\<close> has no opening bracket. The
  document \<open>doc_fenced_import\<close> has its only reference link inside a code fence, and its
  list of imports is not empty.
\<close>

theorem imports_scanned_everywhere:
  "parse_imports x content = Inr (map (import_of content) (re_finditer imports_pattern content))
   \<and> (extract_metadata x content = Inr (md, body, data) \<and> parse_document x content = Inr d
        \<longrightarrow> parse_imports x body = Inr (doc_imports (document_base d)))
   \<and> (occurs_at imports_pattern content i \<longrightarrow>
        (\<exists>m \<in> set (re_finditer imports_pattern content). m_start m \<le> i \<and> i < m_end m)
        \<and> ((\<forall>m \<in> set (re_finditer imports_pattern content). \<not> (m_start m < i \<and> i < m_end m))
             \<longrightarrow> (\<exists>imps. parse_imports x content = Inr imps
                    \<and> import_of content (match_at imports_pattern content i) \<in> set imps)))
   \<and> (name \<noteq> [] \<and> list_all (\<lambda>c. c \<noteq> CHR '']'') name
        \<and> list_all isspace sp \<and> target \<noteq> []
        \<and> list_all (\<lambda>c. \<not> isspace c \<and> c \<noteq> CHR ''#'') target \<and> (rest = [] \<or> isspace (hd rest))
        \<longrightarrow> occurs_at imports_pattern (pre @ ''['' @ name @ '']:'' @ sp @ target @ rest) (length pre)
            \<and> ((\<forall>m \<in> set (re_finditer imports_pattern
                              (pre @ ''['' @ name @ '']:'' @ sp @ target @ rest)).
                     \<not> (m_start m < length pre \<and> length pre < m_end m))
                 \<longrightarrow> (\<exists>imps. parse_imports x (pre @ ''['' @ name @ '']:'' @ sp @ target @ rest)
                                = Inr imps
                        \<and> \<lparr>imp_concept_name = name, imp_path = target, imp_anchor = None\<rparr>
                            \<in> set imps))
            \<and> ((\<forall>c \<in> set pre. c \<noteq> CHR ''['')
                 \<longrightarrow> (\<exists>more. parse_imports x (pre @ ''['' @ name @ '']:'' @ sp @ target @ rest)
                        = Inr (\<lparr>imp_concept_name = name, imp_path = target, imp_anchor = None\<rparr>
                               # more))))
   \<and> find_code_fence_regions ''```\<newline>[Lib]: ./lib.md\<newline>```\<newline>'' = [(0, 23)]
   \<and> parse_document demo_ext doc_fenced_import
       = Inr (Plain \<lparr>doc_metadata = \<lparr>md_name = ''Review'', md_type = ''[Operation]'',
                                       md_description = ''Reviews leads'', md_provider = None\<rparr>,
                     doc_imports = [\<lparr>imp_concept_name = ''Lib'', imp_path = ''./lib.md'',
                                     imp_anchor = None\<rparr>],
                     doc_definitions = [], doc_setup = None, doc_operations = [],
                     doc_triggers = []\<rparr>)"
proof -
  have whole: "parse_imports x body = Inr (doc_imports (document_base d))"
    if "extract_metadata x content = Inr (md, body, data)" "parse_document x content = Inr d"
    using that
    by (auto simp: parse_document_def parse_document_try_def parse_sections_def tool_document_def
                   plain_document_def document_base_def
             split: sum.splits if_splits)
  have reported: "\<exists>imps. parse_imports x c = Inr imps
                    \<and> import_of c (match_at imports_pattern c k) \<in> set imps"
    if "occurs_at imports_pattern c k"
       "\<forall>m \<in> set (re_finditer imports_pattern c). \<not> (m_start m < k \<and> k < m_end m)"
    for c k
    using imports_occurrence_reported(2) [OF that] by (simp add: parse_imports_eq)
  have link: "occurs_at imports_pattern (pre @ ''['' @ name @ '']:'' @ sp @ target @ rest) (length pre)
            \<and> ((\<forall>m \<in> set (re_finditer imports_pattern
                              (pre @ ''['' @ name @ '']:'' @ sp @ target @ rest)).
                     \<not> (m_start m < length pre \<and> length pre < m_end m))
                 \<longrightarrow> (\<exists>imps. parse_imports x (pre @ ''['' @ name @ '']:'' @ sp @ target @ rest)
                                = Inr imps
                        \<and> \<lparr>imp_concept_name = name, imp_path = target, imp_anchor = None\<rparr>
                            \<in> set imps))"
    if "name \<noteq> []" "list_all (\<lambda>c. c \<noteq> CHR '']'') name" "list_all isspace sp" "target \<noteq> []"
       "list_all (\<lambda>c. \<not> isspace c \<and> c \<noteq> CHR ''#'') target" "rest = [] \<or> isspace (hd rest)"
    using import_of_link [OF that refl, of pre]
      reported [of "pre @ ''['' @ name @ '']:'' @ sp @ target @ rest" "length pre"]
    by auto
  have fence: "find_code_fence_regions ''```\<newline>[Lib]: ./lib.md\<newline>```\<newline>'' = [(0, 23)]"
    by code_simp
  have doc: "parse_document demo_ext doc_fenced_import
       = Inr (Plain \<lparr>doc_metadata = \<lparr>md_name = ''Review'', md_type = ''[Operation]'',
                                       md_description = ''Reviews leads'', md_provider = None\<rparr>,
                     doc_imports = [\<lparr>imp_concept_name = ''Lib'', imp_path = ''./lib.md'',
                                     imp_anchor = None\<rparr>],
                     doc_definitions = [], doc_setup = None, doc_operations = [],
                     doc_triggers = []\<rparr>)"
    by code_simp
  show ?thesis
    using whole imports_occurrence_reported(1) [of content i] reported [of content i] link
      parse_imports_occurrence [of pre name sp target rest x] fence doc
    by (simp only: parse_imports_eq) blast
qed

theorem imports_scanned_everywhere_witness:
  "(\<exists>imps. parse_imports demo_ext
             (''[A]: a.md\<newline>'' @ ''['' @ ''B'' @ '']:'' @ '' '' @ ''b.md'' @ ''\<newline>'') = Inr imps
        \<and> \<lparr>imp_concept_name = ''B'', imp_path = ''b.md'', imp_anchor = None\<rparr> \<in> set imps)
   \<and> (\<exists>more. parse_imports demo_ext
               (''```\<newline>'' @ ''['' @ ''Lib'' @ '']:'' @ '' '' @ ''./lib.md'' @ ''\<newline>```\<newline>'')
        = Inr (\<lparr>imp_concept_name = ''Lib'', imp_path = ''./lib.md'', imp_anchor = None\<rparr> # more))"
proof -
  define two where "two = ''[A]: a.md\<newline>'' @ ''['' @ ''B'' @ '']:'' @ '' '' @ ''b.md'' @ ''\<newline>''"
  have spans: "map (\<lambda>m. (m_start m, m_end m)) (re_finditer imports_pattern two)
                 = [(0, 9), (10, 19)]"
    unfolding two_def by code_simp
  have apart: "\<forall>m \<in> set (re_finditer imports_pattern two).
                  \<not> (m_start m < length ''[A]: a.md\<newline>'' \<and> length ''[A]: a.md\<newline>'' < m_end m)"
  proof
    fix m assume "m \<in> set (re_finditer imports_pattern two)"
    then have "(m_start m, m_end m) \<in> set (map (\<lambda>m. (m_start m, m_end m))
                                            (re_finditer imports_pattern two))"
      by (simp only: set_map) (rule imageI)
    then show "\<not> (m_start m < length ''[A]: a.md\<newline>'' \<and> length ''[A]: a.md\<newline>'' < m_end m)"
      unfolding spans by auto
  qed
  have b: "''B'' \<noteq> [] \<and> list_all (\<lambda>c. c \<noteq> CHR '']'') ''B''
        \<and> list_all isspace '' '' \<and> ''b.md'' \<noteq> []
        \<and> list_all (\<lambda>c. \<not> isspace c \<and> c \<noteq> CHR ''#'') ''b.md''
        \<and> (''\<newline>'' = [] \<or> isspace (hd ''\<newline>''))"
    by (simp add: isspace_def)
  have l: "(\<forall>c \<in> set ''```\<newline>''. c \<noteq> CHR ''['') \<and> ''Lib'' \<noteq> [] \<and> list_all (\<lambda>c. c \<noteq> CHR '']'') ''Lib''
        \<and> list_all isspace '' '' \<and> ''./lib.md'' \<noteq> []
        \<and> list_all (\<lambda>c. \<not> isspace c \<and> c \<noteq> CHR ''#'') ''./lib.md''
        \<and> (''\<newline>```\<newline>'' = [] \<or> isspace (hd ''\<newline>```\<newline>''))"
    by (simp add: isspace_def)
  from b apart [unfolded two_def]
    imports_scanned_everywhere [where x = demo_ext and pre = "''[A]: a.md\<newline>''" and name = "''B''"
      and sp = "'' ''" and target = "''b.md''" and rest = "''\<newline>''"
      and content = "[]" and md = undefined and body = "[]" and data = "[]" and d = undefined
      and i = 0]
  have 1: "\<exists>imps. parse_imports demo_ext
             (''[A]: a.md\<newline>'' @ ''['' @ ''B'' @ '']:'' @ '' '' @ ''b.md'' @ ''\<newline>'') = Inr imps
        \<and> \<lparr>imp_concept_name = ''B'', imp_path = ''b.md'', imp_anchor = None\<rparr> \<in> set imps"
    by blast
  from l imports_scanned_everywhere [where x = demo_ext and pre = "''```\<newline>''" and name = "''Lib''"
      and sp = "'' ''" and target = "''./lib.md''" and rest = "''\<newline>```\<newline>''"
      and content = "[]" and md = undefined and body = "[]" and data = "[]" and d = undefined
      and i = 0]
  have 2: "\<exists>more. parse_imports demo_ext
               (''```\<newline>'' @ ''['' @ ''Lib'' @ '']:'' @ '' '' @ ''./lib.md'' @ ''\<newline>```\<newline>'')
        = Inr (\<lparr>imp_concept_name = ''Lib'', imp_path = ''./lib.md'', imp_anchor = None\<rparr> # more)"
    by blast
  from 1 2 show ?thesis by blast
qed

theorem overlapped_link_gives_no_import:
  "occurs_at imports_pattern ''[p]: [q]: r\<newline>'' 5
   \<and> import_of ''[p]: [q]: r\<newline>'' (match_at imports_pattern ''[p]: [q]: r\<newline>'' 5)
       = \<lparr>imp_concept_name = ''q'', imp_path = ''r'', imp_anchor = None\<rparr>
   \<and> parse_imports demo_ext ''[p]: [q]: r\<newline>''
       = Inr [\<lparr>imp_concept_name = ''p'', imp_path = ''[q]:'', imp_anchor = None\<rparr>]
   \<and> parse_document demo_ext doc_overlapped_import
       = Inr (Plain \<lparr>doc_metadata = \<lparr>md_name = ''Review'', md_type = ''[Operation]'',
                                       md_description = ''Reviews leads'', md_provider = None\<rparr>,
                     doc_imports = [\<lparr>imp_concept_name = ''p'', imp_path = ''[q]:'',
                                     imp_anchor = None\<rparr>],
                     doc_definitions = [], doc_setup = None, doc_operations = [],
                     doc_triggers = []\<rparr>)"
proof -
  have a: "occurs_at imports_pattern ''[p]: [q]: r\<newline>'' 5"
    by code_simp
  have b: "import_of ''[p]: [q]: r\<newline>'' (match_at imports_pattern ''[p]: [q]: r\<newline>'' 5)
       = \<lparr>imp_concept_name = ''q'', imp_path = ''r'', imp_anchor = None\<rparr>"
    by code_simp
  have c: "parse_imports demo_ext ''[p]: [q]: r\<newline>''
       = Inr [\<lparr>imp_concept_name = ''p'', imp_path = ''[q]:'', imp_anchor = None\<rparr>]"
    by code_simp
  have d: "parse_document demo_ext doc_overlapped_import
       = Inr (Plain \<lparr>doc_metadata = \<lparr>md_name = ''Review'', md_type = ''[Operation]'',
                                       md_description = ''Reviews leads'', md_provider = None\<rparr>,
                     doc_imports = [\<lparr>imp_concept_name = ''p'', imp_path = ''[q]:'',
                                     imp_anchor = None\<rparr>],
                     doc_definitions = [], doc_setup = None, doc_operations = [],
                     doc_triggers = []\<rparr>)"
    by code_simp
  from a b c d show ?thesis by simp
qed

subsection \<open>The pattern of the event triggers\<close>

lemma starts_LStar_Chr:
  assumes "st_rest st = w @ r" and "list_all p w"
  shows "starts (LStar (Chr p)) st (map (\<lambda>k. adv st (take k w)) [0..<Suc (length w)])"
  using assms
proof (induction w arbitrary: st)
  case Nil
  then show ?case by (simp add: starts_def ms.simps(6) [of "Chr p" st])
next
  case (Cons c w)
  have step: "ms (LStar (Chr p)) st = st # ms (LStar (Chr p)) (adv st [c])"
    using Cons.prems by (intro ms_LStar_Chr_step [where cs = "w @ r"]) auto
  have rest: "st_rest (adv st [c]) = w @ r"
    using Cons.prems by simp
  from Cons.IH [OF rest] Cons.prems obtain t where
    ih: "ms (LStar (Chr p)) (adv st [c])
           = map (\<lambda>k. adv (adv st [c]) (take k w)) [0..<Suc (length w)] @ t"
    by (auto simp: starts_def)
  have shift: "map (\<lambda>k. adv st (take k (c # w))) [0..<Suc (length (c # w))]
                 = st # map (\<lambda>k. adv (adv st [c]) (take k w)) [0..<Suc (length w)]"
  proof -
    have "[0..<Suc (length (c # w))] = 0 # map Suc [0..<Suc (length w)]"
      by (simp add: upt_conv_Cons map_Suc_upt del: upt_Suc)
    then show ?thesis
      by (simp add: adv_append o_def del: upt_Suc)
  qed
  show ?case
    unfolding starts_def step ih shift by simp
qed

lemma starts_LPlus_Chr:
  assumes "st_rest st = c # w @ r" and "p c" and "list_all p w"
  shows "starts (LPlus (Chr p)) st (map (\<lambda>k. adv st (c # take k w)) [0..<Suc (length w)])"
proof -
  have rest: "st_rest (adv st [c]) = w @ r"
    using assms(1) by simp
  have "ms (LPlus (Chr p)) st = ms (LStar (Chr p)) (adv st [c])"
    using assms(1,2) by (simp add: LPlus_def adv_def)
  moreover from starts_LStar_Chr [OF rest assms(3)]
  have "starts (LStar (Chr p)) (adv st [c])
          (map (\<lambda>k. adv st (c # take k w)) [0..<Suc (length w)])"
    by (simp add: adv_append)
  ultimately show ?thesis by (simp add: starts_def)
qed

lemma starts_cis:
  "st_rest st = w @ r \<Longrightarrow> map lower_char w = l \<Longrightarrow> starts (cis l) st [adv st w]"
  by (auto simp: starts_def ms_cis)

lemma ms_cis_other:
  "st_rest st = c # cs \<Longrightarrow> l \<noteq> [] \<Longrightarrow> lower_char c \<noteq> hd l \<Longrightarrow> ms (cis l) st = []"
  by (cases l) (auto simp: ms_cis)

lemma strip_id: "w \<noteq> [] \<Longrightarrow> \<not> isspace (hd w) \<Longrightarrow> \<not> isspace (last w) \<Longrightarrow> strip w = w"
proof -
  assume w: "w \<noteq> []" "\<not> isspace (hd w)" "\<not> isspace (last w)"
  then have "dropWhile isspace w = w" by (cases w) auto
  moreover have "dropWhile isspace (rev w) = rev w"
    using w by (cases "rev w") (auto simp: last_rev [symmetric] hd_rev)
  ultimately show ?thesis by (simp add: strip_def)
qed

lemma isword_not_space: "isword c \<Longrightarrow> \<not> isspace c"
  by (auto simp: isword_def isspace_def Let_def)

lemma lower_char_not_space: "\<not> isspace (lower_char c) \<Longrightarrow> \<not> isspace c"
  by (auto simp: lower_char_def isspace_def Let_def split: if_splits)

lemma cis_head_not_space:
  "map lower_char w = l \<Longrightarrow> l \<noteq> [] \<Longrightarrow> \<not> isspace (hd l) \<Longrightarrow> \<not> isspace (hd w)"
  by (cases w) (auto dest: lower_char_not_space)

lemma re_match_found:
  "starts r (MState 0 s None []) [st'] \<Longrightarrow> re_match r s = Some (RMatch 0 st')"
  by (auto simp: starts_def re_match_def)

lemma group_at:
  "map_of (st_groups st) k = Some (length u, length u + length w) \<Longrightarrow> s = u @ w @ v
     \<Longrightarrow> group s (RMatch i st) k = Some w"
  by (simp add: group_def slice_middle)

lemma group_str_at:
  "map_of (st_groups st) k = Some (length u, length u + length w) \<Longrightarrow> s = u @ w @ v
     \<Longrightarrow> group_str s (RMatch i st) k = w"
  by (simp add: group_str_def group_at)

lemma ms_Plus_ws_none: "st_rest st = [] \<or> \<not> isspace (hd (st_rest st)) \<Longrightarrow> ms (Plus ws) st = []"
  by (cases "st_rest st") (auto simp: Plus_def ws_def)

lemma event_pattern_unfold:
  "event_pattern = Seq (cis ''when'') (Seq (Plus ws)
     (Seq (Group 1 (Plus (Chr (\<lambda>c. isword c \<or> c = CHR ''.'')))) (Seq (Opt from_branch) event_tail)))"
  by (simp add: event_pattern_def event_tail_def from_branch_def)

lemma event_tail_match:
  assumes rest: "st_rest st = '','' @ s2 @ R @ s3 @ opn @ rest"
    and s2: "list_all isspace s2"
    and R: "map lower_char R = ''run''"
    and s3: "s3 \<noteq> []" "list_all isspace s3"
    and opn: "opn \<noteq> []" "list_all isword opn"
    and stop: "rest = [] \<or> \<not> isword (hd rest)"
  shows "starts event_tail st
           [set_group 3 (st_pos st + 1 + length s2 + 3 + length s3)
              (adv st ('','' @ s2 @ R @ s3 @ opn))]"
proof -
  define t5 where "t5 = adv st '',''"
  define t6 where "t6 = adv t5 s2"
  define t7 where "t7 = adv t6 R"
  define t8 where "t8 = adv t7 s3"
  define t9 where "t9 = set_group 3 (st_pos t8) (adv t8 opn)"
  have "length (map lower_char R) = length ''run''" by (simp only: R)
  then have lenR: "length R = 3" by simp
  have r5: "st_rest t5 = s2 @ R @ s3 @ opn @ rest" using rest by (simp add: t5_def)
  have r6: "st_rest t6 = R @ s3 @ opn @ rest" using r5 by (simp add: t6_def)
  have r7: "st_rest t7 = s3 @ opn @ rest" using r6 by (simp add: t7_def)
  have r8: "st_rest t8 = opn @ rest" using r7 by (simp add: t8_def)
  have a5: "starts (Lit CHR '','') st [t5]"
    unfolding t5_def using rest by (intro starts_Lit) simp
  have "R \<noteq> []" using lenR by auto
  have b6: "R @ s3 @ opn @ rest = [] \<or> \<not> isspace (hd (R @ s3 @ opn @ rest))"
    using cis_head_not_space [OF R] \<open>R \<noteq> []\<close> by (simp add: isspace_def)
  have a6: "starts (Star ws) t5 [t6]"
    unfolding ws_def t6_def by (rule starts_Star_Chr [OF r5 s2 b6])
  have a7: "starts (cis ''run'') t6 [t7]"
    unfolding t7_def by (rule starts_cis [OF r6 R])
  have b8: "opn @ rest = [] \<or> \<not> isspace (hd (opn @ rest))"
    using opn by (cases opn) (auto dest: isword_not_space)
  have a8: "starts (Plus ws) t7 [t8]"
    unfolding ws_def t8_def by (rule starts_Plus_Chr [OF r7 s3 b8])
  have a9: "starts (Group 3 (Plus wordc)) t8 [t9]"
    unfolding wordc_def t9_def by (rule starts_Group1 [OF starts_Plus_Chr [OF r8 opn stop]])
  have "starts event_tail st [t9]"
    unfolding event_tail_def
    by (intro starts_Seq [OF a5] starts_Seq [OF a6] starts_Seq [OF a7] starts_Seq [OF a8] a9)
  moreover have "t9 = set_group 3 (st_pos st + 1 + length s2 + 3 + length s3)
              (adv st ('','' @ s2 @ R @ s3 @ opn))"
    unfolding t9_def t8_def t7_def t6_def t5_def
    by (cases st) (simp add: set_group_def adv_def ac_simps lenR)
  ultimately show ?thesis by simp
qed

lemma event_head_match:
  assumes rest: "st_rest st = W @ s1 @ ev @ r"
    and W: "map lower_char W = ''when''"
    and s1: "s1 \<noteq> []" "list_all isspace s1"
    and ev: "ev \<noteq> []" "list_all (\<lambda>c. isword c \<or> c = CHR ''.'') ev"
    and stop: "r = [] \<or> \<not> (isword (hd r) \<or> hd r = CHR ''.'')"
    and tail: "starts t (set_group 1 (st_pos st + 4 + length s1) (adv st (W @ s1 @ ev))) xs"
  shows "starts (Seq (cis ''when'') (Seq (Plus ws)
            (Seq (Group 1 (Plus (Chr (\<lambda>c. isword c \<or> c = CHR ''.'')))) t))) st xs"
proof -
  define t1 where "t1 = adv st W"
  define t2 where "t2 = adv t1 s1"
  define t3 where "t3 = set_group 1 (st_pos t2) (adv t2 ev)"
  have "length (map lower_char W) = length ''when''" by (simp only: W)
  then have lenW: "length W = 4" by simp
  have r1: "st_rest t1 = s1 @ ev @ r" using rest by (simp add: t1_def)
  have r2: "st_rest t2 = ev @ r" using r1 by (simp add: t2_def)
  have a1: "starts (cis ''when'') st [t1]"
    unfolding t1_def by (rule starts_cis [OF rest W])
  have b2: "ev @ r = [] \<or> \<not> isspace (hd (ev @ r))"
    using ev by (cases ev) (auto dest: isword_not_space simp: isspace_def)
  have a2: "starts (Plus ws) t1 [t2]"
    unfolding ws_def t2_def by (rule starts_Plus_Chr [OF r1 s1 b2])
  have a3: "starts (Group 1 (Plus (Chr (\<lambda>c. isword c \<or> c = CHR ''.'')))) t2 [t3]"
    unfolding t3_def by (rule starts_Group1 [OF starts_Plus_Chr [OF r2 ev stop]])
  have "t3 = set_group 1 (st_pos st + 4 + length s1) (adv st (W @ s1 @ ev))"
    unfolding t3_def t2_def t1_def
    by (cases st) (simp add: set_group_def adv_def ac_simps lenW)
  with tail have "starts t t3 xs" by simp
  then show ?thesis
    by (intro starts_Seq [OF a1] starts_Seq [OF a2] starts_Seq [OF a3])
qed

lemma rest_adv_take:
  assumes "st_rest st = a @ w @ r" and "k \<le> length w"
  shows "st_rest (adv st (a @ take k w)) = drop k w @ r"
proof -
  have "a @ w @ r = (a @ take k w) @ (drop k w @ r)" by simp
  then have "st_rest st = (a @ take k w) @ (drop k w @ r)" using assms(1) by simp
  then show ?thesis by (simp del: append_assoc append_take_drop_id)
qed

lemma from_branch_match:
  assumes rest: "st_rest st = s4 @ F @ s5 @ (c # w) @ r"
    and s4: "s4 \<noteq> []" "list_all isspace s4"
    and F: "map lower_char F = ''from''"
    and s5: "s5 \<noteq> []" "list_all isspace s5"
    and c: "\<not> isspace c" "c \<noteq> CHR 0x0A"
    and w: "list_all (\<lambda>c. c \<noteq> CHR 0x0A) w"
  shows "starts from_branch st
           (map (\<lambda>k. set_group 2 (st_pos st + length s4 + 4 + length s5)
                         (adv st ((s4 @ F @ s5 @ [c]) @ take k w)))
              [0..<Suc (length w)])"
proof -
  define f1 where "f1 = adv st s4"
  define f2 where "f2 = adv f1 F"
  define f3 where "f3 = adv f2 s5"
  have "length (map lower_char F) = length ''from''" by (simp only: F)
  then have lenF: "length F = 4" by simp
  then have "F \<noteq> []" by auto
  have r1: "st_rest f1 = F @ s5 @ (c # w) @ r" using rest by (simp add: f1_def)
  have r2: "st_rest f2 = s5 @ (c # w) @ r" using r1 by (simp add: f2_def)
  have r3: "st_rest f3 = c # w @ r" using r2 by (simp add: f3_def)
  have b1: "F @ s5 @ (c # w) @ r = [] \<or> \<not> isspace (hd (F @ s5 @ (c # w) @ r))"
    using cis_head_not_space [OF F] \<open>F \<noteq> []\<close> by (simp add: isspace_def)
  have a1: "starts (Plus ws) st [f1]"
    unfolding ws_def f1_def by (rule starts_Plus_Chr [OF rest s4 b1])
  have a2: "starts (cis ''from'') f1 [f2]"
    unfolding f2_def by (rule starts_cis [OF r1 F])
  have b3: "(c # w) @ r = [] \<or> \<not> isspace (hd ((c # w) @ r))"
    using c by simp
  have a3: "starts (Plus ws) f2 [f3]"
    unfolding ws_def f3_def by (rule starts_Plus_Chr [OF r2 s5 b3])
  have a4: "starts (Group 2 (LPlus dot)) f3
              (map (set_group 2 (st_pos f3)) (map (\<lambda>k. adv f3 (c # take k w)) [0..<Suc (length w)]))"
    unfolding dot_def
    by (rule starts_Group [OF starts_LPlus_Chr [OF r3 c(2) w]])
  have eq: "set_group 2 (st_pos f3) (adv f3 (c # take k w))
              = set_group 2 (st_pos st + length s4 + 4 + length s5)
                  (adv st ((s4 @ F @ s5 @ [c]) @ take k w))" for k
    unfolding f3_def f2_def f1_def
    by (cases st) (simp add: set_group_def adv_def ac_simps lenF)
  have "starts from_branch st
          (map (set_group 2 (st_pos f3)) (map (\<lambda>k. adv f3 (c # take k w)) [0..<Suc (length w)]))"
    unfolding from_branch_def
    by (intro starts_Seq [OF a1] starts_Seq [OF a2] starts_Seq [OF a3] a4)
  then show ?thesis
    by (simp add: eq o_def del: upt_Suc)
qed

lemma alarm_pattern_other:
  "st_rest st = c # cs \<Longrightarrow> lower_char c \<noteq> CHR ''s'' \<Longrightarrow> ms alarm_pattern st = []"
proof -
  assume a: "st_rest st = c # cs" "lower_char c \<noteq> CHR ''s''"
  have "ms (cis ''set'') st = []"
    by (rule ms_cis_other [OF a(1)]) (use a(2) in simp_all)
  then show ?thesis
    by (simp add: alarm_pattern_def)
qed

lemma re_match_none: "ms r (MState 0 s None []) = [] \<Longrightarrow> re_match r s = None"
  by (simp add: re_match_def)

lemma event_text_not_alarm:
  assumes "map lower_char W = ''when''"
  shows "re_match alarm_pattern (W @ r) = None"
proof -
  from assms obtain c cs where W: "W = c # cs" and c: "lower_char c = CHR ''w''"
    by (cases W) auto
  show ?thesis
    unfolding W
    by (rule re_match_none, rule alarm_pattern_other [where c = c and cs = "cs @ r"])
       (simp_all add: c)
qed

lemma event_match_with_from:
  assumes W: "map lower_char W = ''when''"
    and s1: "s1 \<noteq> []" "list_all isspace s1"
    and ev: "ev \<noteq> []" "list_all (\<lambda>c. isword c \<or> c = CHR ''.'') ev"
    and s4: "s4 \<noteq> []" "list_all isspace s4"
    and F: "map lower_char F = ''from''"
    and s5: "s5 \<noteq> []" "list_all isspace s5"
    and phrase: "phrase \<noteq> []" "list_all (\<lambda>c. c \<noteq> CHR 0x0A \<and> c \<noteq> CHR '','') phrase"
      "\<not> isspace (hd phrase)"
    and s2: "list_all isspace s2"
    and R: "map lower_char R = ''run''"
    and s3: "s3 \<noteq> []" "list_all isspace s3"
    and opn: "opn \<noteq> []" "list_all isword opn"
    and stop: "rest = [] \<or> \<not> isword (hd rest)"
    and tx: "text = W @ s1 @ ev @ s4 @ F @ s5 @ phrase @ '','' @ s2 @ R @ s3 @ opn @ rest"
  shows "\<exists>st. re_match event_pattern text = Some (RMatch 0 st)
           \<and> st_groups st =
               [(3, length (W @ s1 @ ev @ s4 @ F @ s5 @ phrase @ '','' @ s2 @ R @ s3),
                    length (W @ s1 @ ev @ s4 @ F @ s5 @ phrase @ '','' @ s2 @ R @ s3) + length opn),
                (2, length (W @ s1 @ ev @ s4 @ F @ s5),
                    length (W @ s1 @ ev @ s4 @ F @ s5) + length phrase),
                (1, length (W @ s1), length (W @ s1) + length ev)]"
proof -
  from phrase obtain c w where pw: "phrase = c # w" by (cases phrase) auto
  define st0 where "st0 = MState 0 text None []"
  define t3 where "t3 = set_group 1 (st_pos st0 + 4 + length s1) (adv st0 (W @ s1 @ ev))"
  define cand where "cand = (\<lambda>k. set_group 2 (st_pos t3 + length s4 + 4 + length s5)
                         (adv t3 ((s4 @ F @ s5 @ [c]) @ take k w)))"
  define t9 where "t9 = set_group 3 (st_pos (cand (length w)) + 1 + length s2 + 3 + length s3)
              (adv (cand (length w)) ('','' @ s2 @ R @ s3 @ opn))"
  have "length (map lower_char W) = length ''when''" by (simp only: W)
  then have lenW: "length W = 4" by simp
  have "length (map lower_char F) = length ''from''" by (simp only: F)
  then have lenF: "length F = 4" by simp
  have "length (map lower_char R) = length ''run''" by (simp only: R)
  then have lenR: "length R = 3" by simp
  have r0: "st_rest st0 = W @ s1 @ ev @ (s4 @ F @ s5 @ phrase @ '','' @ s2 @ R @ s3 @ opn @ rest)"
    by (simp add: st0_def tx)
  have r3: "st_rest t3 = s4 @ F @ s5 @ (c # w) @ ('','' @ s2 @ R @ s3 @ opn @ rest)"
    using r0 by (simp add: t3_def set_group_def pw)
  have r3': "st_rest t3 = (s4 @ F @ s5 @ [c]) @ w @ ('','' @ s2 @ R @ s3 @ opn @ rest)"
    using r3 by simp
  have rc: "st_rest (cand k) = drop k w @ ('','' @ s2 @ R @ s3 @ opn @ rest)" if "k \<le> length w" for k
    using rest_adv_take [OF r3' that] by (simp add: cand_def set_group_def)
  have cands: "starts from_branch t3 (map cand [0..<Suc (length w)])"
    unfolding cand_def
    using phrase(2,3) by (intro from_branch_match [OF r3 s4 F s5]) (auto simp: pw list_all_iff)
  have fail: "ms event_tail (cand k) = []" if "k < length w" for k
  proof -
    have "hd (st_rest (cand k)) = w ! k"
      using rc [of k] that by (simp add: hd_append hd_drop_conv_nth)
    moreover have "w ! k \<noteq> CHR '',''"
      using phrase(2) that by (auto simp: pw list_all_length)
    moreover have "st_rest (cand k) \<noteq> []" using rc [of k] that by simp
    ultimately have "ms (Lit CHR '','') (cand k) = []"
      by (intro ms_Lit_other) auto
    then show ?thesis by (simp add: event_tail_def)
  qed
  have good: "starts event_tail (cand (length w)) [t9]"
    unfolding t9_def
    using rc [of "length w"] by (intro event_tail_match [OF _ s2 R s3 opn stop]) simp
  have split: "map cand [0..<Suc (length w)] = map cand [0..<length w] @ [cand (length w)]"
    by simp
  have opt: "starts (Opt from_branch) t3 (map cand [0..<length w] @ [cand (length w)])"
    using starts_Opt1 [OF cands] unfolding split .
  have mid: "starts (Seq (Opt from_branch) event_tail) t3 [t9]"
    by (rule starts_Seq_skip [OF opt _ good]) (auto simp: fail)
  have b: "(s4 @ F @ s5 @ phrase @ '','' @ s2 @ R @ s3 @ opn @ rest) = []
           \<or> \<not> (isword (hd (s4 @ F @ s5 @ phrase @ '','' @ s2 @ R @ s3 @ opn @ rest))
                \<or> hd (s4 @ F @ s5 @ phrase @ '','' @ s2 @ R @ s3 @ opn @ rest) = CHR ''.'')"
    using s4 by (cases s4) (auto dest: isword_not_space simp: isspace_def)
  have "starts event_pattern st0 [t9]"
    unfolding event_pattern_unfold
    by (rule event_head_match [OF r0 W s1 ev b mid [unfolded t3_def]])
  then have m: "re_match event_pattern text = Some (RMatch 0 t9)"
    unfolding st0_def by (rule re_match_found)
  have "st_groups t9 =
               [(3, length (W @ s1 @ ev @ s4 @ F @ s5 @ phrase @ '','' @ s2 @ R @ s3),
                    length (W @ s1 @ ev @ s4 @ F @ s5 @ phrase @ '','' @ s2 @ R @ s3) + length opn),
                (2, length (W @ s1 @ ev @ s4 @ F @ s5),
                    length (W @ s1 @ ev @ s4 @ F @ s5) + length phrase),
                (1, length (W @ s1), length (W @ s1) + length ev)]"
    by (simp add: t9_def cand_def t3_def st0_def set_group_def adv_def lenW lenF lenR pw)
  with m show ?thesis by blast
qed

lemma event_match_plain:
  assumes W: "map lower_char W = ''when''"
    and s1: "s1 \<noteq> []" "list_all isspace s1"
    and ev: "ev \<noteq> []" "list_all (\<lambda>c. isword c \<or> c = CHR ''.'') ev"
    and s2: "list_all isspace s2"
    and R: "map lower_char R = ''run''"
    and s3: "s3 \<noteq> []" "list_all isspace s3"
    and opn: "opn \<noteq> []" "list_all isword opn"
    and stop: "rest = [] \<or> \<not> isword (hd rest)"
    and tx: "text = W @ s1 @ ev @ '','' @ s2 @ R @ s3 @ opn @ rest"
  shows "\<exists>st. re_match event_pattern text = Some (RMatch 0 st)
           \<and> st_groups st =
               [(3, length (W @ s1 @ ev @ '','' @ s2 @ R @ s3),
                    length (W @ s1 @ ev @ '','' @ s2 @ R @ s3) + length opn),
                (1, length (W @ s1), length (W @ s1) + length ev)]"
proof -
  define st0 where "st0 = MState 0 text None []"
  define t3 where "t3 = set_group 1 (st_pos st0 + 4 + length s1) (adv st0 (W @ s1 @ ev))"
  define t9 where "t9 = set_group 3 (st_pos t3 + 1 + length s2 + 3 + length s3)
              (adv t3 ('','' @ s2 @ R @ s3 @ opn))"
  have "length (map lower_char W) = length ''when''" by (simp only: W)
  then have lenW: "length W = 4" by simp
  have "length (map lower_char R) = length ''run''" by (simp only: R)
  then have lenR: "length R = 3" by simp
  have r0: "st_rest st0 = W @ s1 @ ev @ ('','' @ s2 @ R @ s3 @ opn @ rest)"
    by (simp add: st0_def tx)
  have r3: "st_rest t3 = '','' @ s2 @ R @ s3 @ opn @ rest"
    using r0 by (simp add: t3_def set_group_def)
  have none: "ms from_branch t3 = []"
    unfolding from_branch_def
    by (rule ms_Seq_none, rule ms_Plus_ws_none) (simp add: r3 isspace_def)
  have good: "starts event_tail t3 [t9]"
    unfolding t9_def by (rule event_tail_match [OF r3 s2 R s3 opn stop])
  have mid: "starts (Seq (Opt from_branch) event_tail) t3 [t9]"
    by (rule starts_Seq [OF starts_Opt2 [OF none] good])
  have b: "('','' @ s2 @ R @ s3 @ opn @ rest) = []
           \<or> \<not> (isword (hd ('','' @ s2 @ R @ s3 @ opn @ rest))
                \<or> hd ('','' @ s2 @ R @ s3 @ opn @ rest) = CHR ''.'')"
    by (simp add: isword_def)
  have "starts event_pattern st0 [t9]"
    unfolding event_pattern_unfold
    by (rule event_head_match [OF r0 W s1 ev b mid [unfolded t3_def]])
  then have m: "re_match event_pattern text = Some (RMatch 0 t9)"
    unfolding st0_def by (rule re_match_found)
  have "st_groups t9 =
               [(3, length (W @ s1 @ ev @ '','' @ s2 @ R @ s3),
                    length (W @ s1 @ ev @ '','' @ s2 @ R @ s3) + length opn),
                (1, length (W @ s1), length (W @ s1) + length ev)]"
    by (simp add: t9_def t3_def st0_def set_group_def adv_def lenW lenR)
  with m show ?thesis by blast
qed

lemma strip_class:
  assumes "w \<noteq> []" and "list_all p w" and "\<And>c. p c \<Longrightarrow> \<not> isspace c"
  shows "strip w = w"
proof (rule strip_id [OF assms(1)])
  show "\<not> isspace (hd w)" using assms by (cases w) auto
  show "\<not> isspace (last w)" using assms(1,2) assms(3) [of "last w"]
    by (auto simp: list_all_iff)
qed

lemma event_trigger_from:
  assumes W: "map lower_char W = ''when''"
    and s1: "s1 \<noteq> []" "list_all isspace s1"
    and ev: "ev \<noteq> []" "list_all (\<lambda>c. isword c \<or> c = CHR ''.'') ev"
    and s4: "s4 \<noteq> []" "list_all isspace s4"
    and F: "map lower_char F = ''from''"
    and s5: "s5 \<noteq> []" "list_all isspace s5"
    and phrase: "phrase \<noteq> []" "list_all (\<lambda>c. c \<noteq> CHR 0x0A \<and> c \<noteq> CHR '','') phrase"
      "\<not> isspace (hd phrase)" "\<not> isspace (last phrase)"
    and s2: "list_all isspace s2"
    and R: "map lower_char R = ''run''"
    and s3: "s3 \<noteq> []" "list_all isspace s3"
    and opn: "opn \<noteq> []" "list_all isword opn"
    and stop: "rest = [] \<or> \<not> isword (hd rest)"
    and tx: "text = W @ s1 @ ev @ s4 @ F @ s5 @ phrase @ '','' @ s2 @ R @ s3 @ opn @ rest"
  shows "parse_trigger_declaration x text
           = Inr \<lparr>tr_raw_text = text, tr_trigger_type = ''event'', tr_schedule = None,
                  tr_event_type = Some ev, tr_filter = Some [(''from'', phrase)],
                  tr_operation = opn, tr_queue_when_paused = True\<rparr>"
proof -
  from event_match_with_from [OF W s1 ev s4 F s5 phrase(1-3) s2 R s3 opn stop tx]
  obtain st where m: "re_match event_pattern text = Some (RMatch 0 st)"
    and g: "st_groups st =
               [(3, length (W @ s1 @ ev @ s4 @ F @ s5 @ phrase @ '','' @ s2 @ R @ s3),
                    length (W @ s1 @ ev @ s4 @ F @ s5 @ phrase @ '','' @ s2 @ R @ s3) + length opn),
                (2, length (W @ s1 @ ev @ s4 @ F @ s5),
                    length (W @ s1 @ ev @ s4 @ F @ s5) + length phrase),
                (1, length (W @ s1), length (W @ s1) + length ev)]"
    by blast
  have na: "re_match alarm_pattern text = None"
    unfolding tx by (rule event_text_not_alarm [OF W])
  have g1: "group_str text (RMatch 0 st) 1 = ev"
    by (rule group_str_at [where u = "W @ s1" and v = "s4 @ F @ s5 @ phrase @ '','' @ s2 @ R @ s3 @ opn @ rest"])
       (simp_all add: g tx)
  have g2: "group text (RMatch 0 st) 2 = Some phrase"
    by (rule group_at [where u = "W @ s1 @ ev @ s4 @ F @ s5" and v = "'','' @ s2 @ R @ s3 @ opn @ rest"])
       (simp_all add: g tx)
  have g3: "group_str text (RMatch 0 st) 3 = opn"
    by (rule group_str_at [where u = "W @ s1 @ ev @ s4 @ F @ s5 @ phrase @ '','' @ s2 @ R @ s3" and v = rest])
       (simp_all add: g tx)
  have e1: "strip ev = ev"
    by (rule strip_class [OF ev]) (auto dest: isword_not_space simp: isspace_def)
  have e2: "strip phrase = phrase"
    by (rule strip_id [OF phrase(1,3,4)])
  have e3: "strip opn = opn"
    by (rule strip_class [OF opn]) (auto dest: isword_not_space)
  have "text \<noteq> []" using W by (auto simp: tx)
  then show ?thesis
    using opn(1) phrase(1)
    by (simp add: parse_trigger_declaration_def na m event_trigger_def event_filter_def
          g1 [unfolded One_nat_def] g1 g2 g3
          e1 e2 e3 mk_Trigger_def validated_def too_short_def parse_filter_spec_def)
qed

lemma event_trigger_plain:
  assumes W: "map lower_char W = ''when''"
    and s1: "s1 \<noteq> []" "list_all isspace s1"
    and ev: "ev \<noteq> []" "list_all (\<lambda>c. isword c \<or> c = CHR ''.'') ev"
    and s2: "list_all isspace s2"
    and R: "map lower_char R = ''run''"
    and s3: "s3 \<noteq> []" "list_all isspace s3"
    and opn: "opn \<noteq> []" "list_all isword opn"
    and stop: "rest = [] \<or> \<not> isword (hd rest)"
    and tx: "text = W @ s1 @ ev @ '','' @ s2 @ R @ s3 @ opn @ rest"
  shows "parse_trigger_declaration x text
           = Inr \<lparr>tr_raw_text = text, tr_trigger_type = ''event'', tr_schedule = None,
                  tr_event_type = Some ev, tr_filter = None,
                  tr_operation = opn, tr_queue_when_paused = True\<rparr>"
proof -
  from event_match_plain [OF W s1 ev s2 R s3 opn stop tx]
  obtain st where m: "re_match event_pattern text = Some (RMatch 0 st)"
    and g: "st_groups st =
               [(3, length (W @ s1 @ ev @ '','' @ s2 @ R @ s3),
                    length (W @ s1 @ ev @ '','' @ s2 @ R @ s3) + length opn),
                (1, length (W @ s1), length (W @ s1) + length ev)]"
    by blast
  have na: "re_match alarm_pattern text = None"
    unfolding tx by (rule event_text_not_alarm [OF W])
  have g1: "group_str text (RMatch 0 st) 1 = ev"
    by (rule group_str_at [where u = "W @ s1" and v = "'','' @ s2 @ R @ s3 @ opn @ rest"])
       (simp_all add: g tx)
  have g2: "group text (RMatch 0 st) 2 = None"
    by (simp add: group_def g)
  have g3: "group_str text (RMatch 0 st) 3 = opn"
    by (rule group_str_at [where u = "W @ s1 @ ev @ '','' @ s2 @ R @ s3" and v = rest])
       (simp_all add: g tx)
  have e1: "strip ev = ev"
    by (rule strip_class [OF ev]) (auto dest: isword_not_space simp: isspace_def)
  have e3: "strip opn = opn"
    by (rule strip_class [OF opn]) (auto dest: isword_not_space)
  have "text \<noteq> []" using W by (auto simp: tx)
  then show ?thesis
    using opn(1)
    by (simp add: parse_trigger_declaration_def na m event_trigger_def event_filter_def
          g1 [unfolded One_nat_def] g1 g2 g3
          e1 e3 mk_Trigger_def validated_def too_short_def)
qed

text \<open>
  C9. A trigger bullet of the form \<open>when <event> [from <phrase>], run <Operation>\<close>: the
  keywords in any case, separated by whitespace, the event type made of word characters
  and dots, the operation of word characters and followed by no further word character.
  The trigger has the type \<open>event\<close>, the event type and the operation as written, and
  \<open>queue_when_paused\<close> true. With a from-phrase (on one line, without a comma, and
  without whitespace at either end) its filter is the phrase under the key \<open>from\<close>, as
  it is written; without one it has no filter. The loop of \<open>_parse_triggers\<close> returns the
  same trigger.
\<close>

theorem event_trigger_grammar:
  assumes "map lower_char W = ''when''" and "s1 \<noteq> []" and "list_all isspace s1"
    and "ev \<noteq> []" and "list_all (\<lambda>c. isword c \<or> c = CHR ''.'') ev"
    and "list_all isspace s2" and "map lower_char R = ''run''"
    and "s3 \<noteq> []" and "list_all isspace s3"
    and "opn \<noteq> []" and "list_all isword opn" and "rest = [] \<or> \<not> isword (hd rest)"
  shows "(s4 \<noteq> [] \<and> list_all isspace s4 \<and> map lower_char F = ''from''
            \<and> s5 \<noteq> [] \<and> list_all isspace s5 \<and> phrase \<noteq> []
            \<and> list_all (\<lambda>c. c \<noteq> CHR 0x0A \<and> c \<noteq> CHR '','') phrase
            \<and> \<not> isspace (hd phrase) \<and> \<not> isspace (last phrase)
          \<longrightarrow> trigger_of_text x (W @ s1 @ ev @ s4 @ F @ s5 @ phrase @ '','' @ s2 @ R @ s3 @ opn @ rest)
              = Inr \<lparr>tr_raw_text = W @ s1 @ ev @ s4 @ F @ s5 @ phrase @ '','' @ s2 @ R @ s3 @ opn @ rest,
                     tr_trigger_type = ''event'', tr_schedule = None, tr_event_type = Some ev,
                     tr_filter = Some [(''from'', phrase)], tr_operation = opn,
                     tr_queue_when_paused = True\<rparr>)
         \<and> trigger_of_text x (W @ s1 @ ev @ '','' @ s2 @ R @ s3 @ opn @ rest)
              = Inr \<lparr>tr_raw_text = W @ s1 @ ev @ '','' @ s2 @ R @ s3 @ opn @ rest,
                     tr_trigger_type = ''event'', tr_schedule = None, tr_event_type = Some ev,
                     tr_filter = None, tr_operation = opn, tr_queue_when_paused = True\<rparr>"
proof -
  have plain: "parse_trigger_declaration x (W @ s1 @ ev @ '','' @ s2 @ R @ s3 @ opn @ rest)
              = Inr \<lparr>tr_raw_text = W @ s1 @ ev @ '','' @ s2 @ R @ s3 @ opn @ rest,
                     tr_trigger_type = ''event'', tr_schedule = None, tr_event_type = Some ev,
                     tr_filter = None, tr_operation = opn, tr_queue_when_paused = True\<rparr>"
    by (rule event_trigger_plain [OF assms refl])
  have with_from: "parse_trigger_declaration x
                (W @ s1 @ ev @ s4 @ F @ s5 @ phrase @ '','' @ s2 @ R @ s3 @ opn @ rest)
              = Inr \<lparr>tr_raw_text = W @ s1 @ ev @ s4 @ F @ s5 @ phrase @ '','' @ s2 @ R @ s3 @ opn @ rest,
                     tr_trigger_type = ''event'', tr_schedule = None, tr_event_type = Some ev,
                     tr_filter = Some [(''from'', phrase)], tr_operation = opn,
                     tr_queue_when_paused = True\<rparr>"
    if "s4 \<noteq> []" "list_all isspace s4" "map lower_char F = ''from''" "s5 \<noteq> []"
       "list_all isspace s5" "phrase \<noteq> []"
       "list_all (\<lambda>c. c \<noteq> CHR 0x0A \<and> c \<noteq> CHR '','') phrase"
       "\<not> isspace (hd phrase)" "\<not> isspace (last phrase)"
    by (rule event_trigger_from [OF assms(1-5) that assms(6-12) refl])
  show ?thesis
    using plain with_from by (simp add: trigger_of_text_def)
qed

theorem event_trigger_grammar_witness:
  "trigger_of_text demo_ext ''When gmail.message.received from *@lead.com, run RespondToLead''
     = Inr \<lparr>tr_raw_text = ''When gmail.message.received from *@lead.com, run RespondToLead'',
            tr_trigger_type = ''event'', tr_schedule = None,
            tr_event_type = Some ''gmail.message.received'',
            tr_filter = Some [(''from'', ''*@lead.com'')], tr_operation = ''RespondToLead'',
            tr_queue_when_paused = True\<rparr>"
proof -
  have a: "map lower_char ''When'' = ''when''" "map lower_char ''from'' = ''from''"
    "map lower_char ''run'' = ''run''"
    by (simp_all add: lower_char_def)
  have b: "list_all isspace '' ''" "\<not> isspace (hd ''*@lead.com'')"
    "\<not> isspace (last ''*@lead.com'')"
    by (simp_all add: isspace_def)
  have c: "list_all (\<lambda>c. isword c \<or> c = CHR ''.'') ''gmail.message.received''"
    "list_all isword ''RespondToLead''"
    by (simp_all add: isword_def)
  have d: "list_all (\<lambda>c. c \<noteq> CHR 0x0A \<and> c \<noteq> CHR '','') ''*@lead.com''"
    by simp
  from event_trigger_grammar [where W = "''When''" and ?s1.0 = "'' ''"
      and ev = "''gmail.message.received''" and ?s2.0 = "'' ''" and R = "''run''"
      and ?s3.0 = "'' ''" and opn = "''RespondToLead''" and rest = "[]" and ?s4.0 = "'' ''"
      and F = "''from''" and ?s5.0 = "'' ''" and phrase = "''*@lead.com''" and x = demo_ext]
    a b c d
  show ?thesis by simp
qed

subsection \<open>The time phrase of an alarm\<close>

declare str_nat.simps [simp del]


lemma holds_set_group [simp]: "holds whole (set_group n i st) = holds whole st"
  by (simp add: holds_def set_group_def)

lemma set_group_sel [simp]:
  "st_pos (set_group n i st) = st_pos st"
  "st_rest (set_group n i st) = st_rest st"
  "st_groups (set_group n i st) = (n, i, st_pos st) # st_groups st"
  by (simp_all add: set_group_def)












lemma int_of_digits_Nil [simp]: "int_of_digits [] = 0"
  by (simp add: int_of_digits_def)




























end
